theory Spec2Isabelle
  imports Main "HOL-Library.Word" "HOL-Library.Monad_Syntax"
begin

section \<open>VFD SWMR coordination core of HDF5 (H5Fvfd\_swmr.c, H5MFfreedspace.c)\<close>

text \<open>
  A shallow embedding of the writer and reader end-of-tick code of
  \<^verbatim>\<open>src/H5Fvfd_swmr.c\<close> and of the freed-space code of
  \<^verbatim>\<open>src/H5MFfreedspace.c\<close>.

  Conventions of the embedding.
  \<^item> C integers are words of the width the code uses: \<^verbatim>\<open>uint64_t\<close>,
    \<^verbatim>\<open>haddr_t\<close>, \<^verbatim>\<open>hsize_t\<close> and \<^verbatim>\<open>size_t\<close> are
    \<open>64 word\<close> (LP64), \<^verbatim>\<open>uint32_t\<close> and \<^verbatim>\<open>unsigned\<close> are
    \<open>32 word\<close>, a byte is \<open>8 word\<close>.
  \<^item> A pointer that may be \<^verbatim>\<open>NULL\<close> is an \<open>option\<close>; an array is a list.
  \<^item> \<^verbatim>\<open>herr_t\<close> is \<open>error option\<close>: \<open>None\<close> is \<^verbatim>\<open>SUCCEED\<close>,
    \<open>Some e\<close> is \<^verbatim>\<open>FAIL\<close> with the error that \<^verbatim>\<open>HGOTO_ERROR\<close>
    pushed. A function returns its \<^verbatim>\<open>herr_t\<close> together with the state it leaves,
    since the C code keeps every mutation made before the failing step.
  \<^item> Every function of the library or of the operating system that is called but not
    defined in these files goes through one parameter \<open>sys\<close>, which maps the call and
    the state of the outside world to a return value and a new world; each call is
    appended to the field \<open>calls\<close> of the state, so that the order of calls can be
    stated.
\<close>

unbundle bit_operations_syntax

subsection \<open>Bytes and the encoding macros\<close>

type_synonym byte = "8 word"
type_synonym uint32_t = "32 word"
type_synonym uint64_t = "64 word"
type_synonym haddr_t = "64 word"

text \<open>
  \<^verbatim>\<open>UINT32ENCODE(p, i)\<close> and \<^verbatim>\<open>UINT64ENCODE(p, n)\<close> are macros of a header
  that is not among the source files.
  Modelled from the spec: ``All integers little-endian''. The macro stores the low byte of
  its argument first and advances \<open>p\<close> by 4 (resp. 8); an argument wider than the field
  loses its high bytes.
\<close>

definition UINT32ENCODE :: "'a::len word \<Rightarrow> byte list" where
  "UINT32ENCODE i = [ucast i, ucast (drop_bit 8 i), ucast (drop_bit 16 i), ucast (drop_bit 24 i)]"

definition UINT64ENCODE :: "'a::len word \<Rightarrow> byte list" where
  "UINT64ENCODE n = map (\<lambda>k. ucast (drop_bit (8 * k) n)) [0..<8]"

text \<open>The value a little-endian byte string denotes (used to state what a field holds).\<close>

fun le_val :: "byte list \<Rightarrow> nat" where
  "le_val [] = 0"
| "le_val (b # bs) = unat b + 256 * le_val bs"

text \<open>
  Constants of \<^verbatim>\<open>H5FDprivate.h\<close>, which is not among the source files.
  Modelled from the spec: the header frame is magic (4), page size (4), tick (8), header
  size (8), index length (8), checksum (4), that is 36 bytes, written at offset 0; an
  index entry is 16 bytes on disk; the index frame is magic (4), tick (8), count (4), the
  entries, checksum (4). \<^verbatim>\<open>H5FD_MD_INDEX_SIZE(N)\<close> is computed in
  \<^verbatim>\<open>unsigned\<close> arithmetic, as its use in the code is.
\<close>

definition H5_SIZEOF_MAGIC :: nat where "H5_SIZEOF_MAGIC = 4"
definition H5FD_MD_HEADER_OFF :: haddr_t where "H5FD_MD_HEADER_OFF = 0"
definition H5FD_MD_HEADER_SIZE :: uint32_t where "H5FD_MD_HEADER_SIZE = 36"
definition H5FD_MD_INDEX_ENTRY_SIZE :: uint32_t where "H5FD_MD_INDEX_ENTRY_SIZE = 16"
definition H5FD_MD_INDEX_SIZE :: "uint32_t \<Rightarrow> uint32_t" where
  "H5FD_MD_INDEX_SIZE N = 4 + 8 + 4 + N * H5FD_MD_INDEX_ENTRY_SIZE + 4"

subsection \<open>Index entries, delayed-list entries and the file\<close>

text \<open>
  \<^verbatim>\<open>H5FD_vfd_swmr_idx_entry_t\<close>. The struct is declared in a header that is not
  among the source files; the fields are those \<^verbatim>\<open>H5F__vfd_swmr_writer__create_index\<close>
  initialises, the page offsets are 64-bit (they are compared with a \<^verbatim>\<open>uint64_t\<close>
  page and receive \<^verbatim>\<open>md_addr / fs_page_size\<close>), length and checksum are 32-bit.
  \<open>entry_ptr\<close> is the image of the page in the page buffer, or \<^verbatim>\<open>NULL\<close>.
\<close>

record idx_entry =
  hdf5_page_offset :: uint64_t
  md_file_page_offset :: uint64_t
  length_bytes :: uint32_t
  chksum :: uint32_t
  entry_ptr :: "byte list option"
  tick_of_last_change :: uint64_t
  clean :: bool
  tick_of_last_flush :: uint64_t
  delayed_flush :: uint64_t
  moved_to_hdf5_file :: bool

text \<open>\<^verbatim>\<open>H5F_vfd_swmr_dl_entry_t\<close>, an entry of the delayed list.\<close>

record dl_entry =
  dl_hdf5_page_offset :: uint64_t
  dl_md_file_page_offset :: uint64_t
  dl_length :: uint32_t
  dl_tick_num :: uint64_t

text \<open>
  The calls that leave these files. A call returns \<open>None\<close> for its failure value
  (\<open>-1\<close>, \<^verbatim>\<open>NULL\<close>, \<^verbatim>\<open>HADDR_UNDEF\<close>, a negative \<^verbatim>\<open>herr_t\<close>)
  and \<open>Some v\<close> otherwise: the address for \<^verbatim>\<open>H5MV_alloc\<close>, the number of bytes
  written for \<^verbatim>\<open>HDwrite\<close>, the time in nanoseconds for
  \<^verbatim>\<open>HDclock_gettime\<close>, the pointer for \<^verbatim>\<open>H5FL_CALLOC\<close>, the value
  stored through the result pointer for the \<^verbatim>\<open>H5AC\<close> queries (for
  \<^verbatim>\<open>H5AC_cache_is_clean\<close>, 0 is \<^verbatim>\<open>FALSE\<close>), a value that is not read
  for the others. File descriptor and
  path are those of the file's metadata file and are not written in the call.
\<close>

datatype call =
    HDlseek haddr_t
  | HDwrite "byte list"
  | HDclose
  | HDunlink
  | HDmalloc uint64_t
  | HDclock_gettime
  | H5FL_CALLOC_dl_entry
  | H5MV_alloc uint64_t
  | H5MV_free haddr_t uint32_t
  | H5MV_close
  | H5PB_vfd_swmr__set_tick uint64_t
  | H5PB_remove_entry haddr_t
  | H5C_evict_or_refresh_all_entries_in_page uint64_t uint64_t
  | H5AC_cache_is_clean
  | H5AC_get_entry_status haddr_t
  | H5AC_get_entry_ring haddr_t
  | H5FL_CALLOC_freedspace
  | H5MF_alloc_tmp
  | H5AC_set_ring nat
  | H5AC_insert_entry haddr_t
  | H5AC_create_flush_dependency uint64_t haddr_t

type_synonym 'w sys = "call \<Rightarrow> 'w \<Rightarrow> uint64_t option \<times> 'w"

text \<open>The errors the modelled functions raise, named by the message of the source.\<close>

datatype error =
    CANTALLOC_delayed_entry
  | WRITEERROR_alloc_md_space
  | SEEKERROR_md_file
  | WRITEERROR_entry
  | WRITEERROR_header
  | WRITEERROR_index
  | NOSPACE_md_index
  | CANTSET_index
  | CANTSET_header
  | CANTFLUSH_free_delayed
  | SYSTEM_delay_out_of_range
  | CANTCLOSEFILE_md_file
  | CANTREMOVE_md_file
  | CANTRELEASE_md_fsm
  | CANTGET_time
  | SYSTEM_set_tick
  | CANTSET_end_of_tick
  | CANTFLUSH_remove_pb_entry
  | CANTFLUSH_evict_mdc
  | SYSTEM_update_index
  | SYSTEM_update_md_file
  | CANTALLOC_md_index
  | CANTALLOC_eot_entry
  | CANTGET_dirty_entries
  | CANTGET_entry_status
  | CANTGET_entry_ring
  | CANTGET_entry_type
  | CANTCREATE_freedspace
  | CANTCREATE_flush_dependency
  | BADITER_cache_entries
  | ShadowFull
  | ASSERTION_failed
  | UNDEFINED_behaviour

text \<open>The state every modelled function threads: the world outside and the log of calls.\<close>

record 'w sys_state =
  world :: 'w
  calls :: "call list"

definition do_call :: "'w sys \<Rightarrow> call \<Rightarrow> ('w, 'z) sys_state_scheme \<Rightarrow> uint64_t option \<times> ('w, 'z) sys_state_scheme" where
  "do_call sys c f =
     (case sys c (world f) of (r, w') \<Rightarrow> (r, f\<lparr>world := w', calls := calls f @ [c]\<rparr>))"

text \<open>
  What the code uses but these files do not define: the functions called (\<open>ext_sys\<close>),
  \<^verbatim>\<open>H5_checksum_metadata(buf, len, 0)\<close> and the two magic strings.
\<close>

record 'w ext =
  ext_sys :: "'w sys"
  H5_checksum_metadata :: "byte list \<Rightarrow> uint32_t"
  H5FD_MD_HEADER_MAGIC :: "byte list"
  H5FD_MD_INDEX_MAGIC :: "byte list"

text \<open>
  The part of \<^verbatim>\<open>H5F_shared_t\<close> (\<open>f->shared\<close>) that the modelled functions read or
  write. The delayed list is the list of its entries from \<open>dl_head_ptr\<close> to
  \<open>dl_tail_ptr\<close>. \<open>pb_page_size\<close> is \<open>f->shared->pb_ptr->page_size\<close>.
  \<open>file_end_of_tick_g\<close> is the process-wide \<^verbatim>\<open>end_of_tick_g\<close>, which
  \<^verbatim>\<open>H5F__vfd_swmr_update_end_of_tick_and_tick_num\<close> writes together with
  \<open>f->shared->end_of_tick\<close>. A \<^verbatim>\<open>struct timespec\<close> is the pair of
  \<open>tv_sec\<close> and \<open>tv_nsec\<close>.
\<close>

type_synonym timespec = "int \<times> int"

record 'w H5F_shared = "'w sys_state" +
  vfd_swmr_writer :: bool
  fs_page_size :: uint64_t
  pb_page_size :: uint64_t
  tick_num :: uint64_t
  max_lag :: uint32_t
  tick_len :: uint32_t
  md_pages_reserved :: uint32_t
  end_of_tick :: timespec
  file_end_of_tick_g :: timespec
  vfd_swmr_md_fd :: int
  mdf_idx :: "idx_entry list option"
  mdf_idx_len :: int
  mdf_idx_entries_used :: uint32_t
  old_mdf_idx :: "idx_entry list option"
  old_mdf_idx_len :: int
  old_mdf_idx_entries_used :: int
  dl :: "dl_entry list"
  dl_len :: uint32_t

subsection \<open>The shadow-file codec\<close>

text \<open>
  The image \<^verbatim>\<open>H5F__vfd_swmr_construct_write_md_hdr\<close> builds in its buffer: the
  magic (\<^verbatim>\<open>memcpy\<close> of \<open>H5_SIZEOF_MAGIC\<close> bytes), then page size, tick number,
  header size and index size, then the checksum of these bytes.
\<close>

definition md_hdr_image :: "'w ext \<Rightarrow> 'w H5F_shared \<Rightarrow> uint32_t \<Rightarrow> byte list" where
  "md_hdr_image X f num_entries =
     (let hdr_size = H5FD_MD_HEADER_SIZE;
          p = take H5_SIZEOF_MAGIC (H5FD_MD_HEADER_MAGIC X)
              @ UINT32ENCODE (fs_page_size f)
              @ UINT64ENCODE (tick_num f)
              @ UINT64ENCODE hdr_size
              @ UINT64ENCODE (H5FD_MD_INDEX_SIZE num_entries);
          metadata_chksum = H5_checksum_metadata X p
      in p @ UINT32ENCODE metadata_chksum)"

text \<open>
  The function: build the image, seek to \<open>H5FD_MD_HEADER_OFF\<close>, write \<open>hdr_size\<close>
  bytes of the image.
\<close>

definition H5F__vfd_swmr_construct_write_md_hdr ::
  "'w ext \<Rightarrow> 'w H5F_shared \<Rightarrow> uint32_t \<Rightarrow> error option \<times> 'w H5F_shared" where
  "H5F__vfd_swmr_construct_write_md_hdr X f num_entries =
     (let hdr_size = H5FD_MD_HEADER_SIZE;
          image = md_hdr_image X f num_entries
      in case do_call (ext_sys X) (HDlseek H5FD_MD_HEADER_OFF) f of
           (None, f1) \<Rightarrow> (Some SEEKERROR_md_file, f1)
         | (Some _, f1) \<Rightarrow>
             (case do_call (ext_sys X) (HDwrite (take (unat hdr_size) image)) f1 of
                (r, f2) \<Rightarrow>
                  if r \<noteq> Some (ucast hdr_size) then (Some WRITEERROR_header, f2)
                  else (None, f2)))"

text \<open>The four fields the loop of \<^verbatim>\<open>H5F__vfd_swmr_construct_write_md_idx\<close> encodes for \<open>index[i]\<close>.\<close>

definition idx_entry_image :: "idx_entry \<Rightarrow> byte list" where
  "idx_entry_image e =
     UINT32ENCODE (hdf5_page_offset e) @ UINT32ENCODE (md_file_page_offset e)
     @ UINT32ENCODE (length_bytes e) @ UINT32ENCODE (chksum e)"

text \<open>The image of the index: magic, tick number, number of entries, the entries, checksum.\<close>

definition md_idx_image :: "'w ext \<Rightarrow> 'w H5F_shared \<Rightarrow> uint32_t \<Rightarrow> idx_entry list \<Rightarrow> byte list" where
  "md_idx_image X f num_entries index =
     (let p = take H5_SIZEOF_MAGIC (H5FD_MD_INDEX_MAGIC X)
              @ UINT64ENCODE (tick_num f)
              @ UINT32ENCODE num_entries
              @ concat (map idx_entry_image (take (unat num_entries) index));
          metadata_chksum = H5_checksum_metadata X p
      in p @ UINT32ENCODE metadata_chksum)"

text \<open>
  The function. \<open>index\<close> is \<^verbatim>\<open>NULL\<close> or an array. The assertion on
  \<open>num_entries\<close> and \<open>index\<close> is the source's. Reading \<open>index[i]\<close> beyond the array,
  and writing the image beyond the \<open>idx_size\<close> bytes allocated (when the
  \<^verbatim>\<open>unsigned\<close> size has wrapped around), is undefined behaviour and is a result of
  its own.
\<close>

definition H5F__vfd_swmr_construct_write_md_idx ::
  "'w ext \<Rightarrow> 'w H5F_shared \<Rightarrow> uint32_t \<Rightarrow> idx_entry list option \<Rightarrow> error option \<times> 'w H5F_shared" where
  "H5F__vfd_swmr_construct_write_md_idx X f num_entries index =
     (let idx_size = H5FD_MD_INDEX_SIZE num_entries in
      if \<not> ((num_entries \<noteq> 0 \<and> index \<noteq> None) \<or> (num_entries = 0 \<and> index = None))
      then (Some ASSERTION_failed, f)
      else case do_call (ext_sys X) (HDmalloc (ucast idx_size)) f of
           (None, f1) \<Rightarrow> (Some NOSPACE_md_index, f1)
         | (Some _, f1) \<Rightarrow>
             let arr = (case index of None \<Rightarrow> [] | Some a \<Rightarrow> a) in
             if unat num_entries > length arr \<or> 20 + 16 * unat num_entries \<ge> 2 ^ 32
             then (Some UNDEFINED_behaviour, f1)
             else
               let image = md_idx_image X f1 num_entries arr in
               (case do_call (ext_sys X) (HDlseek (H5FD_MD_HEADER_OFF + ucast H5FD_MD_HEADER_SIZE)) f1 of
                  (None, f2) \<Rightarrow> (Some SEEKERROR_md_file, f2)
                | (Some _, f2) \<Rightarrow>
                    (case do_call (ext_sys X) (HDwrite (take (unat idx_size) image)) f2 of
                       (r, f3) \<Rightarrow>
                         if r \<noteq> Some (ucast idx_size) then (Some WRITEERROR_index, f3)
                         else (None, f3))))"

subsection \<open>Writer: updating the metadata file\<close>

text \<open>
  The body of the \<^verbatim>\<open>for\<close> loop of \<^verbatim>\<open>H5F_update_vfd_swmr_metadata_file\<close>
  for \<open>index[i]\<close>. \<open>H5F__LL_PREPEND\<close> on the delayed list is \<open>#\<close>.
  \<^verbatim>\<open>md_addr / fs_page_size\<close> with a page size of 0, and a write of \<open>length\<close> bytes
  from an image that is shorter, are undefined behaviour.
\<close>

definition update_index_entry ::
  "'w ext \<Rightarrow> nat \<Rightarrow> 'w H5F_shared \<times> idx_entry list \<Rightarrow> error option \<times> 'w H5F_shared \<times> idx_entry list" where
  "update_index_entry X i = (\<lambda>(f, index).
     case entry_ptr (index ! i) of
       None \<Rightarrow> (None, f, index)
     | Some img \<Rightarrow>
         (case (if md_file_page_offset (index ! i) \<noteq> 0
                then (case do_call (ext_sys X) H5FL_CALLOC_dl_entry f of
                        (None, f1) \<Rightarrow> (Some CANTALLOC_delayed_entry, f1)
                      | (Some _, f1) \<Rightarrow>
                          (None, f1\<lparr>dl := \<lparr>dl_hdf5_page_offset = hdf5_page_offset (index ! i),
                                           dl_md_file_page_offset = md_file_page_offset (index ! i),
                                           dl_length = length_bytes (index ! i),
                                           dl_tick_num = tick_num f1\<rparr> # dl f1,
                                     dl_len := dl_len f1 + 1\<rparr>))
                else (None, f)) of
            (Some e, f1) \<Rightarrow> (Some e, f1, index)
          | (None, f1) \<Rightarrow>
              (case do_call (ext_sys X) (H5MV_alloc (ucast (length_bytes (index ! i)))) f1 of
                 (None, f2) \<Rightarrow> (Some WRITEERROR_alloc_md_space, f2, index)
               | (Some md_addr, f2) \<Rightarrow>
                   if fs_page_size f2 = 0 \<or> length img < unat (length_bytes (index ! i))
                   then (Some UNDEFINED_behaviour, f2, index)
                   else
                     let index1 = index[i := (index ! i)
                           \<lparr>md_file_page_offset := md_addr div fs_page_size f2,
                            chksum := H5_checksum_metadata X (take (unat (length_bytes (index ! i))) img)\<rparr>]
                     in (case do_call (ext_sys X) (HDlseek md_addr) f2 of
                           (None, f3) \<Rightarrow> (Some SEEKERROR_md_file, f3, index1)
                         | (Some _, f3) \<Rightarrow>
                             (case do_call (ext_sys X) (HDwrite (take (unat (length_bytes (index ! i))) img)) f3 of
                                (r, f4) \<Rightarrow>
                                  if r \<noteq> Some (ucast (length_bytes (index ! i)))
                                  then (Some WRITEERROR_entry, f4, index1)
                                  else (None, f4, index1[i := (index1 ! i)\<lparr>entry_ptr := None\<rparr>]))))))"

text \<open>The \<^verbatim>\<open>for\<close> loop over the positions \<open>i = 0, ..., num_entries - 1\<close>; it leaves at the first error.\<close>

fun update_index_entries ::
  "'w ext \<Rightarrow> nat list \<Rightarrow> 'w H5F_shared \<times> idx_entry list \<Rightarrow> error option \<times> 'w H5F_shared \<times> idx_entry list" where
  "update_index_entries X [] (f, index) = (None, f, index)"
| "update_index_entries X (i # is) (f, index) =
     (case update_index_entry X i (f, index) of
        (Some e, f1, index1) \<Rightarrow> (Some e, f1, index1)
      | (None, f1, index1) \<Rightarrow> update_index_entries X is (f1, index1))"

text \<open>
  The \<^verbatim>\<open>while\<close> loop that releases the delayed list from \<open>dl_tail_ptr\<close> upwards.
  The first argument is the chain \<open>dl_entry, dl_entry->prev, ...\<close> that the loop still
  has to visit; \<open>H5F__LL_REMOVE\<close> of the entry visited, which is the tail of the list, is
  \<open>butlast\<close>.
\<close>

fun release_delayed ::
  "'w ext \<Rightarrow> dl_entry list \<Rightarrow> 'w H5F_shared \<Rightarrow> error option \<times> 'w H5F_shared" where
  "release_delayed X [] f = (None, f)"
| "release_delayed X (dl_entry # prevs) f =
     (if tick_num f > ucast (max_lag f) \<and> dl_tick_num dl_entry \<le> tick_num f - ucast (max_lag f)
      then (case do_call (ext_sys X)
                   (H5MV_free (dl_md_file_page_offset dl_entry * fs_page_size f) (dl_length dl_entry)) f of
              (None, f1) \<Rightarrow> (Some CANTFLUSH_free_delayed, f1)
            | (Some _, f1) \<Rightarrow>
                release_delayed X prevs (f1\<lparr>dl := butlast (dl f1), dl_len := dl_len f1 - 1\<rparr>))
      else (None, f))"

text \<open>
  \<^verbatim>\<open>H5F_update_vfd_swmr_metadata_file(f, num_entries, index)\<close>. \<open>index\<close> is
  \<^verbatim>\<open>NULL\<close> or the array; the result holds the array as the function leaves it.
  \<^verbatim>\<open>HDqsort\<close> with \<^verbatim>\<open>H5F__idx_entry_cmp\<close> orders the first \<open>num_entries\<close>
  entries by \<open>hdf5_page_offset\<close> (the order of entries with equal offsets is not fixed by
  \<^verbatim>\<open>qsort\<close>; \<open>sort_key\<close> keeps theirs). Sorting or reading more entries than the
  array holds is undefined behaviour.
\<close>

definition H5F_update_vfd_swmr_metadata_file ::
  "'w ext \<Rightarrow> 'w H5F_shared \<Rightarrow> uint32_t \<Rightarrow> idx_entry list option
     \<Rightarrow> error option \<times> 'w H5F_shared \<times> idx_entry list option" where
  "H5F_update_vfd_swmr_metadata_file X f num_entries index =
     (let arr = (case index of None \<Rightarrow> [] | Some a \<Rightarrow> a);
          n = unat num_entries
      in if n > length arr then (Some UNDEFINED_behaviour, f, index)
         else
           let sorted = sort_key hdf5_page_offset (take n arr) @ drop n arr in
           case update_index_entries X [0..<n] (f, sorted) of
             (Some e, f1, index1) \<Rightarrow> (Some e, f1, map_option (\<lambda>_. index1) index)
           | (None, f1, index1) \<Rightarrow>
               (case H5F__vfd_swmr_construct_write_md_idx X f1 num_entries (map_option (\<lambda>_. index1) index) of
                  (Some _, f2) \<Rightarrow> (Some CANTSET_index, f2, map_option (\<lambda>_. index1) index)
                | (None, f2) \<Rightarrow>
                    (case H5F__vfd_swmr_construct_write_md_hdr X f2 num_entries of
                       (Some _, f3) \<Rightarrow> (Some CANTSET_header, f3, map_option (\<lambda>_. index1) index)
                     | (None, f3) \<Rightarrow>
                         (case release_delayed X (rev (dl f3)) f3 of
                            (r, f4) \<Rightarrow> (r, f4, map_option (\<lambda>_. index1) index)))))"

subsection \<open>Writer: the delay-write oracle\<close>

text \<open>Division of a C \<^verbatim>\<open>int\<close> by 2 truncates towards zero.\<close>

definition c_div2 :: "int \<Rightarrow> int" where
  "c_div2 x = (if 0 \<le> x then x div 2 else - ((- x) div 2))"

text \<open>
  The binary search of \<^verbatim>\<open>H5F_vfd_swmr_writer__delay_write\<close>, with \<open>top'\<close> (the source's \<open>top\<close>),
  \<open>bottom\<close> and \<open>probe\<close> of type \<^verbatim>\<open>int32_t\<close>. The result is the position
  found (\<open>ie_ptr = idx + probe\<close>) or \<open>None\<close> (\<open>ie_ptr = NULL\<close>). Overflow of
  \<open>top + bottom\<close> and a probe outside the array are undefined behaviour.
\<close>

function idx_search :: "idx_entry list \<Rightarrow> uint64_t \<Rightarrow> int \<Rightarrow> int \<Rightarrow> error + nat option" where
  "idx_search idx page top' bottom =
     (if top' \<ge> bottom then
        (if top' + bottom > 2147483647 \<or> top' + bottom < - 2147483648 then Inl UNDEFINED_behaviour
         else
           let probe = c_div2 (top' + bottom) in
           if probe < 0 \<or> probe \<ge> int (length idx) then Inl UNDEFINED_behaviour
           else if hdf5_page_offset (idx ! nat probe) < page then idx_search idx page top' (probe + 1)
           else if hdf5_page_offset (idx ! nat probe) > page then idx_search idx page (probe - 1) bottom
           else Inr (Some (nat probe)))
      else Inr None)"
  by pat_completeness auto
termination
  by (relation "measure (\<lambda>(idx, page, top', bottom). nat (top' - bottom + 1))")
     (auto simp: c_div2_def)

declare idx_search.simps [simp del]

text \<open>
  \<^verbatim>\<open>H5F_vfd_swmr_writer__delay_write(f, page, delay_write_until_ptr)\<close>; the value is
  what the function stores through the pointer. It changes no state.
\<close>

definition H5F_vfd_swmr_writer__delay_write :: "'w H5F_shared \<Rightarrow> uint64_t \<Rightarrow> error + uint64_t" where
  "H5F_vfd_swmr_writer__delay_write f page =
     (if \<not> (mdf_idx f \<noteq> None \<or> tick_num f \<le> 1) then Inl ASSERTION_failed
      else
        let idx = (case mdf_idx f of None \<Rightarrow> [] | Some a \<Rightarrow> a);
            top' = (case mdf_idx f of None \<Rightarrow> - 1 | Some a \<Rightarrow> sint (mdf_idx_entries_used f - 1));
            bottom = 0
        in case idx_search idx page top' bottom of
             Inl e \<Rightarrow> Inl e
           | Inr ie_ptr \<Rightarrow>
               let delay_write_until =
                     (case ie_ptr of
                        Some probe \<Rightarrow>
                          if delayed_flush (idx ! probe) \<ge> tick_num f then delayed_flush (idx ! probe) else 0
                      | None \<Rightarrow> tick_num f + ucast (max_lag f))
               in if delay_write_until \<noteq> 0
                     \<and> \<not> (delay_write_until \<ge> tick_num f
                            \<and> delay_write_until \<le> tick_num f + ucast (max_lag f))
                  then Inl SYSTEM_delay_out_of_range
                  else Inr delay_write_until)"

subsection \<open>The end-of-tick queue\<close>

text \<open>
  \<^verbatim>\<open>H5F_vfd_swmr_eot_queue_entry_t\<close> and the globals of the queue. The entries live
  in a store from addresses to entries, since the macros below work on the pointers \<open>next\<close> and
  \<open>prev\<close> (here \<open>next_ptr\<close> and \<open>prev_ptr\<close>). \<open>vfd_swmr_file\<close> is the address of the file.
\<close>

record eot_queue_entry =
  eot_vfd_swmr_writer :: bool
  eot_tick_num :: uint64_t
  eot_end_of_tick :: timespec
  vfd_swmr_file :: nat
  next_ptr :: "nat option"
  prev_ptr :: "nat option"

record eot_globals =
  eot_heap :: "nat \<rightharpoonup> eot_queue_entry"
  vfd_swmr_eot_queue_head_g :: "nat option"
  vfd_swmr_eot_queue_tail_g :: "nat option"
  vfd_swmr_writer_g :: bool
  end_of_tick_g :: timespec

text \<open>
  Reading and writing through a pointer; \<open>None\<close> when the address holds no entry. The
  macros return \<open>None\<close> when they dereference \<^verbatim>\<open>NULL\<close> or such an address.
\<close>

definition set_next :: "nat \<Rightarrow> nat option \<Rightarrow> eot_globals \<Rightarrow> eot_globals option" where
  "set_next p v g =
     (case eot_heap g p of None \<Rightarrow> None
      | Some n \<Rightarrow> Some (g\<lparr>eot_heap := (eot_heap g)(p \<mapsto> n\<lparr>next_ptr := v\<rparr>)\<rparr>))"

definition set_prev :: "nat \<Rightarrow> nat option \<Rightarrow> eot_globals \<Rightarrow> eot_globals option" where
  "set_prev p v g =
     (case eot_heap g p of None \<Rightarrow> None
      | Some n \<Rightarrow> Some (g\<lparr>eot_heap := (eot_heap g)(p \<mapsto> n\<lparr>prev_ptr := v\<rparr>)\<rparr>))"

text \<open>\<^verbatim>\<open>H5F__LL_PREPEND(entry_ptr, head_ptr, tail_ptr)\<close> on the queue's head and tail.\<close>

definition H5F__LL_PREPEND :: "nat \<Rightarrow> eot_globals \<Rightarrow> eot_globals option" where
  "H5F__LL_PREPEND ent g =
     (case vfd_swmr_eot_queue_head_g g of
        None \<Rightarrow> Some (g\<lparr>vfd_swmr_eot_queue_head_g := Some ent,
                        vfd_swmr_eot_queue_tail_g := Some ent\<rparr>)
      | Some head_ptr \<Rightarrow> do {
          g1 \<leftarrow> set_prev head_ptr (Some ent) g;
          g2 \<leftarrow> set_next ent (Some head_ptr) g1;
          Some (g2\<lparr>vfd_swmr_eot_queue_head_g := Some ent\<rparr>)
        })"

text \<open>\<^verbatim>\<open>H5F__LL_APPEND(entry_ptr, head_ptr, tail_ptr)\<close>.\<close>

definition H5F__LL_APPEND :: "nat \<Rightarrow> eot_globals \<Rightarrow> eot_globals option" where
  "H5F__LL_APPEND ent g =
     (case vfd_swmr_eot_queue_head_g g of
        None \<Rightarrow> Some (g\<lparr>vfd_swmr_eot_queue_head_g := Some ent,
                        vfd_swmr_eot_queue_tail_g := Some ent\<rparr>)
      | Some head_ptr \<Rightarrow> do {
          tail_ptr \<leftarrow> vfd_swmr_eot_queue_tail_g g;
          g1 \<leftarrow> set_next tail_ptr (Some ent) g;
          g2 \<leftarrow> set_prev ent (Some tail_ptr) g1;
          Some (g2\<lparr>vfd_swmr_eot_queue_tail_g := Some ent\<rparr>)
        })"

text \<open>
  \<^verbatim>\<open>H5F_EOT_INSERT_AFTER(entry_ptr, prec_ptr, head_ptr, tail_ptr)\<close>, with its three
  branches in the order of the source: no predecessor, predecessor with
  \<open>prev == NULL\<close>, predecessor in the body of the list.
\<close>

definition H5F_EOT_INSERT_AFTER :: "nat \<Rightarrow> nat option \<Rightarrow> eot_globals \<Rightarrow> eot_globals option" where
  "H5F_EOT_INSERT_AFTER ent prec_ptr g =
     (case prec_ptr of
        None \<Rightarrow> H5F__LL_PREPEND ent g
      | Some prec \<Rightarrow> do {
          pn \<leftarrow> eot_heap g prec;
          (case prev_ptr pn of
             None \<Rightarrow> H5F__LL_APPEND ent g
           | Some _ \<Rightarrow> do {
               g1 \<leftarrow> set_prev ent (Some prec) g;
               pn1 \<leftarrow> eot_heap g1 prec;
               g2 \<leftarrow> set_next ent (next_ptr pn1) g1;
               pn2 \<leftarrow> eot_heap g2 prec;
               prec_next \<leftarrow> next_ptr pn2;
               g3 \<leftarrow> set_prev prec_next (Some ent) g2;
               set_next prec (Some ent) g3
             })
        })"

text \<open>\<^verbatim>\<open>timespeccmp(a, b, >)\<close> of \<^verbatim>\<open>sys/time.h\<close>: seconds first, then nanoseconds.\<close>

definition timespeccmp_gt :: "timespec \<Rightarrow> timespec \<Rightarrow> bool" where
  "timespeccmp_gt a b = (if fst a = fst b then snd a > snd b else fst a > fst b)"

text \<open>
  The \<^verbatim>\<open>while (prec_ptr)\<close> loop of \<^verbatim>\<open>H5F_vfd_swmr_insert_entry_eot\<close>: from
  the tail towards the head, past every entry whose end of tick is later than the new
  one's. The loop follows \<open>prev\<close> pointers of the store and has no bound of its own; the
  result is \<open>None\<close> when it does not end or reads an address that holds no entry.
\<close>

partial_function (option) eot_find_prec ::
  "(nat \<rightharpoonup> eot_queue_entry) \<Rightarrow> timespec \<Rightarrow> nat option \<Rightarrow> nat option option" where
  "eot_find_prec h t prec_ptr =
     (case prec_ptr of
        None \<Rightarrow> Some None
      | Some p \<Rightarrow>
          (case h p of
             None \<Rightarrow> None
           | Some pn \<Rightarrow>
               if timespeccmp_gt (eot_end_of_tick pn) t then eot_find_prec h t (prev_ptr pn)
               else Some (Some p)))"

text \<open>The assignments to the globals that end the insert and the remove function.\<close>

definition eot_set_globals :: "eot_globals \<Rightarrow> eot_globals option" where
  "eot_set_globals g =
     (case vfd_swmr_eot_queue_head_g g of
        Some h \<Rightarrow> do {
          hn \<leftarrow> eot_heap g h;
          Some (g\<lparr>vfd_swmr_writer_g := eot_vfd_swmr_writer hn, end_of_tick_g := eot_end_of_tick hn\<rparr>)
        }
      | None \<Rightarrow> Some (g\<lparr>vfd_swmr_writer_g := False\<rparr>))"

text \<open>
  \<^verbatim>\<open>H5F_vfd_swmr_insert_entry_eot(f)\<close>. \<open>new\<close> is what \<^verbatim>\<open>H5FL_CALLOC\<close> returns,
  \<open>f\<close> the address of the file and \<open>fs\<close> its \<open>f->shared\<close>. Undefined behaviour
  (a dereference of \<^verbatim>\<open>NULL\<close>, a walk that does not end) is the result
  \<open>Inl UNDEFINED_behaviour\<close>.
\<close>

definition H5F_vfd_swmr_insert_entry_eot ::
  "nat option \<Rightarrow> nat \<Rightarrow> 'w H5F_shared \<Rightarrow> eot_globals \<Rightarrow> error + eot_globals" where
  "H5F_vfd_swmr_insert_entry_eot new f fs g =
     (case new of
        None \<Rightarrow> Inl CANTALLOC_eot_entry
      | Some ent \<Rightarrow>
          let g0 = g\<lparr>eot_heap := (eot_heap g)(ent \<mapsto>
                     \<lparr>eot_vfd_swmr_writer = vfd_swmr_writer fs, eot_tick_num = tick_num fs,
                      eot_end_of_tick = end_of_tick fs, vfd_swmr_file = f,
                      next_ptr = None, prev_ptr = None\<rparr>)\<rparr>
          in case Option.bind
                    (eot_find_prec (eot_heap g0) (end_of_tick fs) (vfd_swmr_eot_queue_tail_g g0))
                    (\<lambda>prec_ptr. Option.bind (H5F_EOT_INSERT_AFTER ent prec_ptr g0) eot_set_globals) of
               None \<Rightarrow> Inl UNDEFINED_behaviour
             | Some g2 \<Rightarrow> Inr g2)"

text \<open>The entries met from a pointer along \<open>next\<close>, at most \<open>k\<close> of them.\<close>

fun eot_chain :: "(nat \<rightharpoonup> eot_queue_entry) \<Rightarrow> nat \<Rightarrow> nat option \<Rightarrow> eot_queue_entry list" where
  "eot_chain h 0 p = []"
| "eot_chain h (Suc k) None = []"
| "eot_chain h (Suc k) (Some a) =
     (case h a of None \<Rightarrow> [] | Some n \<Rightarrow> n # eot_chain h k (next_ptr n))"

text \<open>
  The first statement of \<^verbatim>\<open>H5F_vfd_swmr_writer_end_of_tick(f)\<close> and of
  \<^verbatim>\<open>H5F_vfd_swmr_reader_end_of_tick(f)\<close>:
  \<^verbatim>\<open>if(f == NULL) f = vfd_swmr_eot_queue_head_g->vfd_swmr_file;\<close>. The result is the file
  the function goes on with, or undefined behaviour when the head it reads is
  \<^verbatim>\<open>NULL\<close>.
\<close>

definition eot_file_or_head :: "eot_globals \<Rightarrow> nat option \<Rightarrow> error + nat" where
  "eot_file_or_head g f =
     (case f of
        Some p \<Rightarrow> Inr p
      | None \<Rightarrow>
          (case vfd_swmr_eot_queue_head_g g of
             None \<Rightarrow> Inl UNDEFINED_behaviour
           | Some h \<Rightarrow>
               (case eot_heap g h of
                  None \<Rightarrow> Inl UNDEFINED_behaviour
                | Some hn \<Rightarrow> Inr (vfd_swmr_file hn))))"

subsection \<open>Reader: comparing the old and the new index\<close>

text \<open>
  What the walk does with a page it finds altered or removed: in pass 0 the page buffer
  removes the page at \<open>hdf5_page_offset * page_size\<close>, in pass 1 the metadata cache
  evicts or refreshes the entries of the page.
\<close>

definition evict_page ::
  "'w ext \<Rightarrow> nat \<Rightarrow> uint64_t \<Rightarrow> uint64_t \<Rightarrow> 'w H5F_shared \<Rightarrow> error option \<times> 'w H5F_shared" where
  "evict_page X pass tmp_tick_num page f =
     (if pass = 0
      then (case do_call (ext_sys X) (H5PB_remove_entry (page * pb_page_size f)) f of
              (None, f1) \<Rightarrow> (Some CANTFLUSH_remove_pb_entry, f1)
            | (Some _, f1) \<Rightarrow> (None, f1))
      else (case do_call (ext_sys X) (H5C_evict_or_refresh_all_entries_in_page page tmp_tick_num) f of
              (None, f1) \<Rightarrow> (Some CANTFLUSH_evict_mdc, f1)
            | (Some _, f1) \<Rightarrow> (None, f1)))"

text \<open>
  The two inner loops of one pass of \<^verbatim>\<open>H5F_vfd_swmr_reader_end_of_tick\<close>. The list
  arguments are the entries \<open>old_mdf_idx[i..]\<close> and \<open>new_mdf_idx[j..]\<close> that the cursors
  \<open>i\<close> and \<open>j\<close> have not passed. The first equation is the body of the loop
  \<^verbatim>\<open>while (i < old_used && j < new_used)\<close>, the second the loop that cleans up what is
  left of the old index. The counters \<open>entries_added\<close>, \<open>entries_removed\<close> and
  \<open>entries_changed\<close> are only printed by disabled code and are left out.
\<close>

fun diff_walk ::
  "'w ext \<Rightarrow> nat \<Rightarrow> uint64_t \<Rightarrow> idx_entry list \<Rightarrow> idx_entry list \<Rightarrow> 'w H5F_shared
     \<Rightarrow> error option \<times> 'w H5F_shared" where
  "diff_walk X pass tmp_tick_num (old_i # old_rest) (new_j # new_rest) f =
     (if hdf5_page_offset old_i = hdf5_page_offset new_j then
        (if md_file_page_offset old_i \<noteq> md_file_page_offset new_j then
           (case evict_page X pass tmp_tick_num (hdf5_page_offset new_j) f of
              (Some e, f1) \<Rightarrow> (Some e, f1)
            | (None, f1) \<Rightarrow> diff_walk X pass tmp_tick_num old_rest new_rest f1)
         else diff_walk X pass tmp_tick_num old_rest new_rest f)
      else if hdf5_page_offset old_i < hdf5_page_offset new_j then
        (case evict_page X pass tmp_tick_num (hdf5_page_offset old_i) f of
           (Some e, f1) \<Rightarrow> (Some e, f1)
         | (None, f1) \<Rightarrow> diff_walk X pass tmp_tick_num old_rest (new_j # new_rest) f1)
      else diff_walk X pass tmp_tick_num (old_i # old_rest) new_rest f)"
| "diff_walk X pass tmp_tick_num (old_i # old_rest) [] f =
     (case evict_page X pass tmp_tick_num (hdf5_page_offset old_i) f of
        (Some e, f1) \<Rightarrow> (Some e, f1)
      | (None, f1) \<Rightarrow> diff_walk X pass tmp_tick_num old_rest [] f1)"
| "diff_walk X pass tmp_tick_num [] new_rest f = (None, f)"

text \<open>
  One pass: the walk over the first \<open>old_mdf_idx_entries_used\<close> entries of the old and
  the first \<open>mdf_idx_entries_used\<close> entries of the new index. A count larger than its
  array makes the walk read beyond the array once it gets there; the model gives
  undefined behaviour for such a state at the start of the pass.
\<close>

definition reader_diff_pass ::
  "'w ext \<Rightarrow> nat \<Rightarrow> uint64_t \<Rightarrow> 'w H5F_shared \<Rightarrow> error option \<times> 'w H5F_shared" where
  "reader_diff_pass X pass tmp_tick_num f =
     (let new_mdf_idx = (case mdf_idx f of None \<Rightarrow> [] | Some a \<Rightarrow> a);
          new_mdf_idx_entries_used = sint (mdf_idx_entries_used f);
          old_idx = (case old_mdf_idx f of None \<Rightarrow> [] | Some a \<Rightarrow> a);
          old_used = old_mdf_idx_entries_used f
      in if int (length new_mdf_idx) < new_mdf_idx_entries_used \<or> int (length old_idx) < old_used
         then (Some UNDEFINED_behaviour, f)
         else diff_walk X pass tmp_tick_num
                (take (nat old_used) old_idx) (take (nat new_mdf_idx_entries_used) new_mdf_idx) f)"

text \<open>The loop \<^verbatim>\<open>while (pass <= 1)\<close>: pass 0, then pass 1.\<close>

definition reader_diff :: "'w ext \<Rightarrow> uint64_t \<Rightarrow> 'w H5F_shared \<Rightarrow> error option \<times> 'w H5F_shared" where
  "reader_diff X tmp_tick_num f =
     (case reader_diff_pass X 0 tmp_tick_num f of
        (Some e, f1) \<Rightarrow> (Some e, f1)
      | (None, f1) \<Rightarrow> reader_diff_pass X 1 tmp_tick_num f1)"

subsection \<open>Writer: the index and its capacity\<close>

definition empty_idx_entry :: idx_entry where
  "empty_idx_entry =
     \<lparr>hdf5_page_offset = 0, md_file_page_offset = 0, length_bytes = 0, chksum = 0,
      entry_ptr = None, tick_of_last_change = 0, clean = False, tick_of_last_flush = 0,
      delayed_flush = 0, moved_to_hdf5_file = False\<rparr>"

text \<open>\<^verbatim>\<open>sizeof(H5FD_vfd_swmr_idx_entry_t)\<close> on LP64; only the argument of \<^verbatim>\<open>HDmalloc\<close> depends on it.\<close>

definition sizeof_idx_entry_t :: uint64_t where "sizeof_idx_entry_t = 72"

text \<open>
  \<^verbatim>\<open>H5F__vfd_swmr_writer__create_index(f)\<close>, with its assertions.
  \<open>bytes_available\<close> is a \<^verbatim>\<open>size_t\<close>, \<open>entries_in_index\<close> an \<^verbatim>\<open>int32_t\<close>.
\<close>

definition H5F__vfd_swmr_writer__create_index ::
  "'w ext \<Rightarrow> 'w H5F_shared \<Rightarrow> error option \<times> 'w H5F_shared" where
  "H5F__vfd_swmr_writer__create_index X f =
     (if \<not> (mdf_idx f = None \<and> mdf_idx_len f = 0 \<and> mdf_idx_entries_used f = 0)
      then (Some ASSERTION_failed, f)
      else
        let bytes_available = fs_page_size f * ucast (md_pages_reserved f) - ucast H5FD_MD_HEADER_SIZE
        in if \<not> bytes_available > 0 then (Some ASSERTION_failed, f)
           else
             let entries_in_index =
                   sint (ucast (bytes_available div ucast H5FD_MD_INDEX_ENTRY_SIZE) :: 32 word)
             in if \<not> entries_in_index > 0 then (Some ASSERTION_failed, f)
                else
                  let index_size = sizeof_idx_entry_t * word_of_int entries_in_index in
                  (case do_call (ext_sys X) (HDmalloc index_size) f of
                     (None, f1) \<Rightarrow> (Some NOSPACE_md_index, f1)
                   | (Some _, f1) \<Rightarrow>
                       (None, f1\<lparr>mdf_idx := Some (replicate (nat entries_in_index) empty_idx_entry),
                                  mdf_idx_len := entries_in_index,
                                  mdf_idx_entries_used := 0\<rparr>)))"

text \<open>
  \<^verbatim>\<open>H5PB_vfd_swmr__update_index\<close> belongs to the page buffer and is not among the
  source files.
  Modelled from the spec: ``Merge tick list into index. The page buffer reports counts of
  entries added, modified, and not-in-tick-list. The index may gain entries.'' and
  ``\<open>md_pages_reserved\<close> yields capacity for exactly \<open>K\<close> entries; inserting the
  \<open>K+1\<close>-th fails with \<open>ShadowFull\<close>.'' A page of the tick list (page offset, length,
  image) that the index holds has its entry modified; any other page is inserted into the
  next free slot of the array, which fails when the \<open>mdf_idx_len\<close> slots are taken.
  \<open>mdf_idx_entries_used\<close> is left to the caller, who adds the count of entries added.
\<close>

type_synonym tick_list_entry = "uint64_t \<times> uint32_t \<times> byte list"

fun idx_position :: "idx_entry list \<Rightarrow> uint64_t \<Rightarrow> nat option" where
  "idx_position [] page = None"
| "idx_position (e # es) page =
     (if hdf5_page_offset e = page then Some 0 else map_option Suc (idx_position es page))"

fun merge_tick_list ::
  "tick_list_entry list \<Rightarrow> uint64_t \<Rightarrow> nat \<Rightarrow> nat \<Rightarrow> idx_entry list \<Rightarrow> nat \<Rightarrow> error + (idx_entry list \<times> nat)" where
  "merge_tick_list [] tick used len idx added = Inr (idx, added)"
| "merge_tick_list ((page, n, img) # rest) tick used len idx added =
     (case idx_position (take (used + added) idx) page of
        Some k \<Rightarrow>
          merge_tick_list rest tick used len
            (idx[k := (idx ! k)\<lparr>length_bytes := n, entry_ptr := Some img, tick_of_last_change := tick\<rparr>])
            added
      | None \<Rightarrow>
          if used + added \<ge> len \<or> used + added \<ge> length idx then Inl ShadowFull
          else merge_tick_list rest tick used len
                 (idx[used + added := empty_idx_entry\<lparr>hdf5_page_offset := page, length_bytes := n,
                        entry_ptr := Some img, tick_of_last_change := tick\<rparr>])
                 (added + 1))"

definition H5PB_vfd_swmr__update_index ::
  "tick_list_entry list \<Rightarrow> 'w H5F_shared \<Rightarrow> error option \<times> 'w H5F_shared \<times> uint32_t" where
  "H5PB_vfd_swmr__update_index tick_list f =
     (case merge_tick_list tick_list (tick_num f) (unat (mdf_idx_entries_used f)) (nat (mdf_idx_len f))
             (case mdf_idx f of None \<Rightarrow> [] | Some idx \<Rightarrow> idx) 0 of
        Inl e \<Rightarrow> (Some e, f, 0)
      | Inr (idx1, added) \<Rightarrow> (None, f\<lparr>mdf_idx := map_option (\<lambda>_. idx1) (mdf_idx f)\<rparr>, of_nat added))"

text \<open>
  Steps 3 to 6 of \<^verbatim>\<open>H5F_vfd_swmr_writer_end_of_tick\<close> (from the test
  \<open>tick_num == 1\<close> to the assertion \<open>mdf_idx_entries_used <= mdf_idx_len\<close>).
  \<open>update_index\<close> stands for the call of \<^verbatim>\<open>H5PB_vfd_swmr__update_index\<close> and
  gives \<open>idx_entries_added\<close>. The array passed to
  \<^verbatim>\<open>H5F_update_vfd_swmr_metadata_file\<close> is \<open>f->shared->mdf_idx\<close> itself, so what
  the function leaves in it is the file's index.
\<close>

definition writer_end_of_tick_index ::
  "'w ext \<Rightarrow> ('w H5F_shared \<Rightarrow> error option \<times> 'w H5F_shared \<times> uint32_t) \<Rightarrow> 'w H5F_shared
     \<Rightarrow> error option \<times> 'w H5F_shared" where
  "writer_end_of_tick_index X update_index f =
     (case (if tick_num f = 1 then H5F__vfd_swmr_writer__create_index X f else (None, f)) of
        (Some _, f1) \<Rightarrow> (Some CANTALLOC_md_index, f1)
      | (None, f1) \<Rightarrow>
          (case update_index f1 of
             (Some _, f2, _) \<Rightarrow> (Some SYSTEM_update_index, f2)
           | (None, f2, idx_entries_added) \<Rightarrow>
               (case (if mdf_idx_entries_used f2 + idx_entries_added > 0
                      then (case H5F_update_vfd_swmr_metadata_file X f2
                                   (mdf_idx_entries_used f2 + idx_entries_added) (mdf_idx f2) of
                              (r, f3, index) \<Rightarrow> (r, f3\<lparr>mdf_idx := index\<rparr>))
                      else (case H5F_update_vfd_swmr_metadata_file X f2 0 None of
                              (r, f3, _) \<Rightarrow> (r, f3))) of
                  (Some _, f3) \<Rightarrow> (Some SYSTEM_update_md_file, f3)
                | (None, f3) \<Rightarrow>
                    let f4 = f3\<lparr>mdf_idx_entries_used := mdf_idx_entries_used f3 + idx_entries_added\<rparr>
                    in if \<not> uint (mdf_idx_entries_used f4) \<le> mdf_idx_len f4
                       then (Some ASSERTION_failed, f4)
                       else (None, f4))))"

subsection \<open>Writer: close or flush\<close>




subsection \<open>Freed space: creating the freedspace object\<close>

text \<open>
  The cache client ids the callback names (constants of a header that is not among the
  source files), and one constructor for every other id.
\<close>

datatype H5AC_type_id =
    H5AC_BT2_HDR_ID | H5AC_BT2_INT_ID | H5AC_BT2_LEAF_ID
  | H5AC_EARRAY_HDR_ID | H5AC_EARRAY_IBLOCK_ID | H5AC_EARRAY_SBLOCK_ID
  | H5AC_EARRAY_DBLOCK_ID | H5AC_EARRAY_DBLK_PAGE_ID
  | H5AC_FARRAY_HDR_ID | H5AC_FARRAY_DBLOCK_ID | H5AC_FARRAY_DBLK_PAGE_ID
  | H5AC_OHDR_ID | H5AC_OHDR_CHK_ID
  | H5AC_FREEDSPACE_ID | H5AC_PROXY_ENTRY_ID | H5AC_EPOCH_MARKER_ID | H5AC_PREFETCHED_ENTRY_ID
  | H5AC_OTHER_ID nat

text \<open>\<^verbatim>\<open>H5FD_mem_t\<close>: raw data, or one of the other file space types.\<close>

datatype H5FD_mem_t = H5FD_MEM_DRAW | H5FD_MEM_OTHER nat

text \<open>
  The fields of a cache entry (\<^verbatim>\<open>H5AC_info_t\<close>) the callback reads. \<open>type_id\<close> is
  what \<^verbatim>\<open>H5AC_get_entry_type(entry)\<close> returns, \<open>None\<close> for a negative value.
\<close>

record H5AC_info_t =
  addr :: haddr_t
  is_dirty :: bool
  ring :: nat
  type_id :: "H5AC_type_id option"

text \<open>\<^verbatim>\<open>H5MF_freedspace_t\<close>, without the file pointer and the \<open>next\<close> pointer (\<^verbatim>\<open>NULL\<close>).\<close>

record H5MF_freedspace_t =
  fs_alloc_type :: H5FD_mem_t
  fs_addr :: haddr_t
  fs_size :: uint64_t
  fs_timestamp :: uint64_t

text \<open>
  \<^verbatim>\<open>H5MF_freedspace_ctx_t\<close>, the context of the iteration. It carries the world and the
  log of calls; \<open>ctx_fs\<close> is the pointer to the freedspace object with the object.
\<close>

record 'w H5MF_freedspace_ctx_t = "'w sys_state" +
  ctx_ring :: nat
  ctx_alloc_type :: H5FD_mem_t
  ctx_addr :: haddr_t
  ctx_size :: uint64_t
  ctx_fs :: "(uint64_t \<times> H5MF_freedspace_t) option"

text \<open>
  What the freed-space code uses but the source files do not define: the functions
  called, three constants of the metadata cache, and the values \<^verbatim>\<open>H5CX_get_ring()\<close>
  and \<^verbatim>\<open>H5_now_usec()\<close> return, which have no failure value.
\<close>

record 'w mf_ext =
  mf_sys :: "'w sys"
  H5AC_RING_INV :: nat
  H5AC_RING_USER :: nat
  H5AC_ES__IN_CACHE :: uint64_t
  H5CX_get_ring :: nat
  H5_now_usec :: uint64_t

text \<open>
  \<^verbatim>\<open>H5MF__freedspace_new(ctx)\<close>. \<^verbatim>\<open>H5AC_set_ring(ring, &orig_ring)\<close> returns the
  ring it replaces; at \<open>done\<close> the ring is set back when \<open>orig_ring\<close> was written.
\<close>

definition H5MF__freedspace_new ::
  "'w mf_ext \<Rightarrow> 'w H5MF_freedspace_ctx_t
     \<Rightarrow> (uint64_t \<times> H5MF_freedspace_t) option \<times> 'w H5MF_freedspace_ctx_t" where
  "H5MF__freedspace_new E ctx =
     (case do_call (mf_sys E) H5FL_CALLOC_freedspace ctx of
        (None, c1) \<Rightarrow> (None, c1)
      | (Some p, c1) \<Rightarrow>
          let fs = \<lparr>fs_alloc_type = ctx_alloc_type c1, fs_addr = ctx_addr c1,
                    fs_size = ctx_size c1, fs_timestamp = H5_now_usec E\<rparr>
          in (case do_call (mf_sys E) H5MF_alloc_tmp c1 of
                (None, c2) \<Rightarrow> (None, c2)
              | (Some fs_address, c2) \<Rightarrow>
                  (case do_call (mf_sys E) (H5AC_set_ring (ctx_ring c2)) c2 of
                     (orig, c3) \<Rightarrow>
                       let orig_ring = (case orig of None \<Rightarrow> H5AC_RING_INV E | Some r \<Rightarrow> unat r) in
                       (case do_call (mf_sys E) (H5AC_insert_entry fs_address) c3 of
                          (r, c4) \<Rightarrow>
                            let c5 = (if orig_ring \<noteq> H5AC_RING_INV E
                                      then snd (do_call (mf_sys E) (H5AC_set_ring orig_ring) c4)
                                      else c4)
                            in (if r = None then None else Some (p, fs), c5)))))"

text \<open>The test of the callback on the type of the entry: \<open>create_fd\<close>.\<close>

definition create_fd :: "H5FD_mem_t \<Rightarrow> H5AC_type_id \<Rightarrow> bool" where
  "create_fd alloc_type t =
     (if alloc_type = H5FD_MEM_DRAW then
        (if (t = H5AC_BT2_HDR_ID \<or> t = H5AC_BT2_INT_ID \<or> t = H5AC_BT2_LEAF_ID)
            \<or> (t = H5AC_EARRAY_HDR_ID \<or> t = H5AC_EARRAY_IBLOCK_ID \<or> t = H5AC_EARRAY_SBLOCK_ID
                \<or> t = H5AC_EARRAY_DBLOCK_ID \<or> t = H5AC_EARRAY_DBLK_PAGE_ID)
            \<or> (t = H5AC_FARRAY_HDR_ID \<or> t = H5AC_FARRAY_DBLOCK_ID \<or> t = H5AC_FARRAY_DBLK_PAGE_ID)
            \<or> (t = H5AC_OHDR_ID \<or> t = H5AC_OHDR_CHK_ID)
         then True else False)
      else if t \<noteq> H5AC_FREEDSPACE_ID \<and> t \<noteq> H5AC_PROXY_ENTRY_ID
              \<and> t \<noteq> H5AC_EPOCH_MARKER_ID \<and> t \<noteq> H5AC_PREFETCHED_ENTRY_ID
      then True else False)"

text \<open>\<^verbatim>\<open>H5MF__freedspace_create_cb(entry, ctx)\<close>; \<open>None\<close> is \<^verbatim>\<open>H5_ITER_CONT\<close>.\<close>

definition H5MF__freedspace_create_cb ::
  "'w mf_ext \<Rightarrow> H5AC_info_t \<Rightarrow> 'w H5MF_freedspace_ctx_t \<Rightarrow> error option \<times> 'w H5MF_freedspace_ctx_t" where
  "H5MF__freedspace_create_cb E entry ctx =
     (if addr entry \<noteq> ctx_addr ctx \<and> is_dirty entry \<and> ring entry \<le> ctx_ring ctx then
        (case type_id entry of
           None \<Rightarrow> (Some CANTGET_entry_type, ctx)
         | Some t \<Rightarrow>
             if create_fd (ctx_alloc_type ctx) t then
               (case (if ctx_fs ctx = None
                      then (case H5MF__freedspace_new E ctx of
                              (None, c1) \<Rightarrow> (Some CANTCREATE_freedspace, c1)
                            | (Some fs, c1) \<Rightarrow> (None, c1\<lparr>ctx_fs := Some fs\<rparr>))
                      else (None, ctx)) of
                  (Some e, c1) \<Rightarrow> (Some e, c1)
                | (None, c1) \<Rightarrow>
                    (case ctx_fs c1 of
                       None \<Rightarrow> (Some UNDEFINED_behaviour, c1)
                     | Some (p, fs) \<Rightarrow>
                         (case do_call (mf_sys E) (H5AC_create_flush_dependency p (addr entry)) c1 of
                            (None, c2) \<Rightarrow> (Some CANTCREATE_flush_dependency, c2)
                          | (Some _, c2) \<Rightarrow> (None, c2))))
             else (None, ctx))
      else (None, ctx))"

text \<open>
  \<^verbatim>\<open>H5AC_iterate(f, cb, ctx)\<close> belongs to the metadata cache and is not among the
  source files.
  Modelled from the spec: ``\<open>iterate(file, cb, ctx)\<close>'', the visitor
  ``\<open>for_each_entry\<close>'' over the entries of the cache: the callback is called on each
  entry in turn, and the iteration stops with a failure at the first call that fails.
\<close>

fun H5AC_iterate ::
  "'w mf_ext \<Rightarrow> H5AC_info_t list \<Rightarrow> 'w H5MF_freedspace_ctx_t \<Rightarrow> error option \<times> 'w H5MF_freedspace_ctx_t" where
  "H5AC_iterate E [] ctx = (None, ctx)"
| "H5AC_iterate E (entry # entries) ctx =
     (case H5MF__freedspace_create_cb E entry ctx of
        (Some e, c1) \<Rightarrow> (Some e, c1)
      | (None, c1) \<Rightarrow> H5AC_iterate E entries c1)"

text \<open>
  \<^verbatim>\<open>H5MF__freedspace_create(f, alloc_type, addr, size, fs)\<close>. \<open>cache\<close> holds the
  entries of the metadata cache, \<open>HADDR_UNDEF\<close> is the address of all ones. The result
  holds what the function leaves in \<open>*fs\<close>, which is \<^verbatim>\<open>NULL\<close> at the call. The
  block under \<^verbatim>\<open>H5_DEBUG_BUILD\<close> is left out.
\<close>

definition HADDR_UNDEF :: haddr_t where "HADDR_UNDEF = - 1"

definition H5MF__freedspace_create ::
  "'w mf_ext \<Rightarrow> H5AC_info_t list \<Rightarrow> 'w sys_state \<Rightarrow> H5FD_mem_t \<Rightarrow> haddr_t \<Rightarrow> uint64_t
     \<Rightarrow> error option \<times> (uint64_t \<times> H5MF_freedspace_t) option \<times> 'w sys_state" where
  "H5MF__freedspace_create E cache s alloc_type address size_freed =
     (if address = HADDR_UNDEF then (Some ASSERTION_failed, None, s)
      else case do_call (mf_sys E) H5AC_cache_is_clean s of
        (None, s1) \<Rightarrow> (Some CANTGET_dirty_entries, None, s1)
      | (Some cache_clean, s1) \<Rightarrow>
          if cache_clean \<noteq> 0 then (None, None, s1)
          else
            (case (if alloc_type \<noteq> H5FD_MEM_DRAW
                   then (case do_call (mf_sys E) (H5AC_get_entry_status address) s1 of
                           (None, s2) \<Rightarrow> (Some CANTGET_entry_status, 0, s2)
                         | (Some st, s2) \<Rightarrow> (None, st, s2))
                   else (None, 0, s1)) of
               (Some e, _, s2) \<Rightarrow> (Some e, None, s2)
             | (None, status, s2) \<Rightarrow>
                 (case (if alloc_type = H5FD_MEM_DRAW then (None, H5AC_RING_USER E, s2)
                        else if status AND H5AC_ES__IN_CACHE E \<noteq> 0
                        then (case do_call (mf_sys E) (H5AC_get_entry_ring address) s2 of
                                (None, s3) \<Rightarrow> (Some CANTGET_entry_ring, 0, s3)
                              | (Some r, s3) \<Rightarrow> (None, unat r, s3))
                        else (None, H5CX_get_ring E, s2)) of
                    (Some e, _, s3) \<Rightarrow> (Some e, None, s3)
                  | (None, rg, s3) \<Rightarrow>
                      let fs_ctx = \<lparr>world = world s3, calls = calls s3, ctx_ring = rg,
                                    ctx_alloc_type = alloc_type, ctx_addr = address,
                                    ctx_size = size_freed, ctx_fs = None\<rparr>
                      in (case H5AC_iterate E cache fs_ctx of
                            (Some _, c) \<Rightarrow>
                              (Some BADITER_cache_entries, None, \<lparr>world = world c, calls = calls c\<rparr>)
                          | (None, c) \<Rightarrow>
                              (None, ctx_fs c, \<lparr>world = world c, calls = calls c\<rparr>)))))"

subsection \<open>Notions used in the statements\<close>

text \<open>
  What the calls of a list return when they are made one after the other from a world:
  each call with its result, and the world after the last. The addresses that the
  allocations of space in the metadata file have returned are then read off.
\<close>

fun replay :: "'w sys \<Rightarrow> call list \<Rightarrow> 'w \<Rightarrow> (call \<times> uint64_t option) list \<times> 'w" where
  "replay s [] w = ([], w)"
| "replay s (c # cs) w =
     (case s c w of (r, w1) \<Rightarrow> (case replay s cs w1 of (tr, w2) \<Rightarrow> ((c, r) # tr, w2)))"

fun alloc_addrs :: "(call \<times> uint64_t option) list \<Rightarrow> haddr_t list" where
  "alloc_addrs [] = []"
| "alloc_addrs ((c, r) # tr) =
     (case (c, r) of (H5MV_alloc n, Some a) \<Rightarrow> [a] | _ \<Rightarrow> []) @ alloc_addrs tr"

text \<open>
  The pages of the old index that the reader has to evict, in the words of the spec: a
  page that ``exists in both with a different \<open>md_file_page_offset\<close>'' or ``exists in old
  only''; a page that ``exists in new only'' is not among them.
\<close>

definition stale_pages :: "idx_entry list \<Rightarrow> idx_entry list \<Rightarrow> uint64_t list" where
  "stale_pages old new =
     map hdf5_page_offset
       (filter (\<lambda>old_e. case find (\<lambda>new_e. hdf5_page_offset new_e = hdf5_page_offset old_e) new of
                           None \<Rightarrow> True
                         | Some new_e \<Rightarrow> md_file_page_offset old_e \<noteq> md_file_page_offset new_e) old)"

text \<open>The call that one pass makes for a page.\<close>

definition evict_call :: "nat \<Rightarrow> uint64_t \<Rightarrow> uint64_t \<Rightarrow> uint64_t \<Rightarrow> call" where
  "evict_call pass tmp_tick_num page_size page =
     (if pass = 0 then H5PB_remove_entry (page * page_size)
      else H5C_evict_or_refresh_all_entries_in_page page tmp_tick_num)"

text \<open>The used entries of the old and of the new index of a reader.\<close>

definition reader_old_entries :: "'w H5F_shared \<Rightarrow> idx_entry list" where
  "reader_old_entries f =
     take (nat (old_mdf_idx_entries_used f)) (case old_mdf_idx f of None \<Rightarrow> [] | Some a \<Rightarrow> a)"

definition reader_new_entries :: "'w H5F_shared \<Rightarrow> idx_entry list" where
  "reader_new_entries f =
     take (nat (sint (mdf_idx_entries_used f))) (case mdf_idx f of None \<Rightarrow> [] | Some a \<Rightarrow> a)"

text \<open>
  An entry of the index ``whose \<open>entry_ptr\<close> is non-null'' is pending. Publishing a
  pending entry at the address \<open>a\<close> that the allocation returns makes the calls
  \<open>entry_calls\<close> (the allocation of a delayed-list entry first, when the entry has a
  place in the metadata file already) and leaves the entry \<open>published_entry\<close>; the
  delayed-list entry for the place it had is \<open>superseded\<close>.
\<close>

definition pending :: "idx_entry \<Rightarrow> bool" where
  "pending e = (entry_ptr e \<noteq> None)"

definition entry_image :: "idx_entry \<Rightarrow> byte list" where
  "entry_image e = take (unat (length_bytes e)) (case entry_ptr e of None \<Rightarrow> [] | Some img \<Rightarrow> img)"

definition entry_calls :: "idx_entry \<Rightarrow> haddr_t \<Rightarrow> call list" where
  "entry_calls e a =
     (if md_file_page_offset e \<noteq> 0 then [H5FL_CALLOC_dl_entry] else [])
     @ [H5MV_alloc (ucast (length_bytes e)), HDlseek a, HDwrite (entry_image e)]"

definition published_entry :: "'w ext \<Rightarrow> uint64_t \<Rightarrow> idx_entry \<Rightarrow> haddr_t \<Rightarrow> idx_entry" where
  "published_entry X page_size e a =
     e\<lparr>md_file_page_offset := a div page_size,
       chksum := H5_checksum_metadata X (entry_image e),
       entry_ptr := None\<rparr>"

definition superseded :: "uint64_t \<Rightarrow> idx_entry \<Rightarrow> dl_entry" where
  "superseded tick e =
     \<lparr>dl_hdf5_page_offset = hdf5_page_offset e, dl_md_file_page_offset = md_file_page_offset e,
      dl_length = length_bytes e, dl_tick_num = tick\<rparr>"

text \<open>
  The same for the entries of an index in their order, the pending ones taking their
  addresses from the list in turn; and the delayed-list entries that publishing them
  prepends, the last one prepended first.
\<close>

fun published :: "'w ext \<Rightarrow> uint64_t \<Rightarrow> idx_entry list \<Rightarrow> haddr_t list \<Rightarrow> idx_entry list" where
  "published X page_size [] addrs = []"
| "published X page_size (e # es) [] = e # published X page_size es []"
| "published X page_size (e # es) (a # addrs) =
     (if pending e then published_entry X page_size e a # published X page_size es addrs
      else e # published X page_size es (a # addrs))"

fun publish_calls :: "idx_entry list \<Rightarrow> haddr_t list \<Rightarrow> call list" where
  "publish_calls [] addrs = []"
| "publish_calls (e # es) [] = []"
| "publish_calls (e # es) (a # addrs) =
     (if pending e then entry_calls e a @ publish_calls es addrs
      else publish_calls es (a # addrs))"

definition newly_delayed :: "uint64_t \<Rightarrow> idx_entry list \<Rightarrow> dl_entry list" where
  "newly_delayed tick es =
     rev (map (superseded tick) (filter (\<lambda>e. pending e \<and> md_file_page_offset e \<noteq> 0) es))"

text \<open>
  A delayed-list entry is expired at a tick when its ``\<open>tick_num \<le> current_tick - max_lag\<close>'',
  read in the integers; releasing it is the call \<open>free_call\<close>. The delayed list of a
  file is well formed when its ticks do not increase from the head (the newest entry) to
  the tail and lie between 1 and the current tick.
\<close>

definition expired :: "uint64_t \<Rightarrow> uint32_t \<Rightarrow> dl_entry \<Rightarrow> bool" where
  "expired tick lag d = (int (unat (dl_tick_num d)) \<le> int (unat tick) - int (unat lag))"

definition free_call :: "uint64_t \<Rightarrow> dl_entry \<Rightarrow> call" where
  "free_call page_size d = H5MV_free (dl_md_file_page_offset d * page_size) (dl_length d)"

definition dl_wf :: "uint64_t \<Rightarrow> dl_entry list \<Rightarrow> bool" where
  "dl_wf tick ds =
     (sorted (map dl_tick_num (rev ds))
      \<and> list_all (\<lambda>d. 1 \<le> dl_tick_num d \<and> dl_tick_num d \<le> tick) ds)"

text \<open>The test the release loop makes on a delayed-list entry, and the calls that free extents.\<close>

definition release_due :: "uint64_t \<Rightarrow> uint32_t \<Rightarrow> dl_entry \<Rightarrow> bool" where
  "release_due tick lag d = (tick > ucast lag \<and> dl_tick_num d \<le> tick - ucast lag)"

text \<open>
  The capacity of the index after the spec,
  ``\<open>N = (md_pages_reserved * page_size - header_size) / entry_size\<close>'', in the natural
  numbers; and a tick list of pages that are all different and none of which is among the
  entries in use.
\<close>

definition index_capacity :: "'w H5F_shared \<Rightarrow> nat" where
  "index_capacity f =
     (unat (md_pages_reserved f) * unat (fs_page_size f) - unat H5FD_MD_HEADER_SIZE)
       div unat H5FD_MD_INDEX_ENTRY_SIZE"

definition new_pages :: "tick_list_entry list \<Rightarrow> 'w H5F_shared \<Rightarrow> bool" where
  "new_pages tick_list f =
     (distinct (map fst tick_list)
      \<and> list_all (\<lambda>p. p \<notin> set (map hdf5_page_offset
            (take (unat (mdf_idx_entries_used f)) (case mdf_idx f of None \<Rightarrow> [] | Some idx \<Rightarrow> idx))))
          (map fst tick_list))"

text \<open>
  For the freed space: whether the cache answers that it is clean; the ring the iteration
  compares with (the user ring for raw data, the ring of the entry at the freed address
  when the cache holds it, the ring of the API context otherwise); the entries that the
  callback links (\<open>fd_candidate\<close>); and the flush dependencies (parent, child) among the
  calls made.
\<close>

definition cache_is_clean :: "'w mf_ext \<Rightarrow> 'w sys_state \<Rightarrow> bool" where
  "cache_is_clean E s =
     (case fst (mf_sys E H5AC_cache_is_clean (world s)) of None \<Rightarrow> False | Some c \<Rightarrow> c \<noteq> 0)"

definition freed_ring :: "'w mf_ext \<Rightarrow> 'w sys_state \<Rightarrow> H5FD_mem_t \<Rightarrow> haddr_t \<Rightarrow> nat" where
  "freed_ring E s alloc_type address =
     (if alloc_type = H5FD_MEM_DRAW then H5AC_RING_USER E
      else
        let w1 = snd (mf_sys E H5AC_cache_is_clean (world s));
            st = mf_sys E (H5AC_get_entry_status address) w1
        in case fst st of
             None \<Rightarrow> H5CX_get_ring E
           | Some status \<Rightarrow>
               if status AND H5AC_ES__IN_CACHE E \<noteq> 0
               then (case fst (mf_sys E (H5AC_get_entry_ring address) (snd st)) of
                       None \<Rightarrow> H5CX_get_ring E | Some r \<Rightarrow> unat r)
               else H5CX_get_ring E)"

definition fd_candidate :: "H5FD_mem_t \<Rightarrow> haddr_t \<Rightarrow> nat \<Rightarrow> H5AC_info_t \<Rightarrow> bool" where
  "fd_candidate alloc_type address rg e =
     (addr e \<noteq> address \<and> is_dirty e \<and> ring e \<le> rg
      \<and> (case type_id e of None \<Rightarrow> False | Some t \<Rightarrow> create_fd alloc_type t))"

fun flush_dependencies :: "call list \<Rightarrow> (uint64_t \<times> haddr_t) list" where
  "flush_dependencies [] = []"
| "flush_dependencies (c # cs) =
     (case c of H5AC_create_flush_dependency p a \<Rightarrow> [(p, a)] | _ \<Rightarrow> []) @ flush_dependencies cs"

subsection \<open>Example states\<close>

text \<open>
  A writer's file at tick 1 with no index yet, a world in which every call succeeds
  (\<^verbatim>\<open>HDwrite\<close> writes all the bytes), one in which \<^verbatim>\<open>HDclose\<close> fails, one
  whose state is the next free address of the metadata file, and an empty queue.
\<close>

definition example_file :: "'w \<Rightarrow> 'w H5F_shared" where
  "example_file w =
     \<lparr>world = w, calls = [], vfd_swmr_writer = True, fs_page_size = 4096, pb_page_size = 4096,
      tick_num = 1, max_lag = 3, tick_len = 1, md_pages_reserved = 64, end_of_tick = (0, 0),
      file_end_of_tick_g = (0, 0), vfd_swmr_md_fd = 3, mdf_idx = None, mdf_idx_len = 0,
      mdf_idx_entries_used = 0, old_mdf_idx = None, old_mdf_idx_len = 0,
      old_mdf_idx_entries_used = 0, dl = [], dl_len = 0\<rparr>"

definition sys_ok :: "'w sys" where
  "sys_ok c w = (case c of HDwrite bs \<Rightarrow> (Some (of_nat (length bs)), w) | _ \<Rightarrow> (Some 0, w))"


definition sys_bump :: "nat sys" where
  "sys_bump c w =
     (case c of H5MV_alloc n \<Rightarrow> (Some (of_nat w), w + unat n) | _ \<Rightarrow> sys_ok c w)"

definition example_ext :: "'w sys \<Rightarrow> 'w ext" where
  "example_ext s =
     \<lparr>ext_sys = s, H5_checksum_metadata = (\<lambda>bs. of_nat (length bs)),
      H5FD_MD_HEADER_MAGIC = [86, 72, 68, 82], H5FD_MD_INDEX_MAGIC = [86, 73, 68, 88]\<rparr>"

definition example_entry :: "uint64_t \<Rightarrow> uint64_t \<Rightarrow> byte list option \<Rightarrow> idx_entry" where
  "example_entry page md_page img =
     empty_idx_entry\<lparr>hdf5_page_offset := page, md_file_page_offset := md_page,
                      length_bytes := 4, entry_ptr := img\<rparr>"

definition eot_empty :: eot_globals where
  "eot_empty =
     \<lparr>eot_heap = Map.empty, vfd_swmr_eot_queue_head_g = None, vfd_swmr_eot_queue_tail_g = None,
      vfd_swmr_writer_g = False, end_of_tick_g = (0, 0)\<rparr>"

text \<open>The insertion of a file at address \<open>10 * a\<close>, with its end of tick at \<open>d\<close> nanoseconds, as the entry at address \<open>a\<close>.\<close>

definition eot_insert_at :: "nat \<Rightarrow> int \<Rightarrow> eot_globals \<Rightarrow> error + eot_globals" where
  "eot_insert_at a d g =
     H5F_vfd_swmr_insert_entry_eot (Some a) (10 * a) ((example_file ())\<lparr>end_of_tick := (0, d)\<rparr>) g"

text \<open>A writer's file at tick 3 whose index holds the pages 5, 8 and 9.\<close>

definition example_index_file :: "unit H5F_shared" where
  "example_index_file =
     (example_file ())\<lparr>tick_num := 3,
        mdf_idx := Some [(example_entry 5 1 None)\<lparr>delayed_flush := 0\<rparr>,
                         (example_entry 8 2 None)\<lparr>delayed_flush := 4\<rparr>,
                         (example_entry 9 3 None)\<lparr>delayed_flush := 100\<rparr>],
        mdf_idx_len := 3, mdf_idx_entries_used := 3\<rparr>"

text \<open>
  A reader's file: the old index holds the pages 41, 42 and 43, the new index the pages 42
  (at another place of the metadata file), 43 (at the same place) and 44.
\<close>

definition example_reader_file :: "unit H5F_shared" where
  "example_reader_file =
     (example_file ())\<lparr>vfd_swmr_writer := False, tick_num := 7,
        old_mdf_idx := Some [example_entry 41 1 None, example_entry 42 2 None, example_entry 43 3 None],
        old_mdf_idx_len := 3, old_mdf_idx_entries_used := 3,
        mdf_idx := Some [example_entry 42 5 None, example_entry 43 3 None, example_entry 44 6 None],
        mdf_idx_len := 3, mdf_idx_entries_used := 3\<rparr>"

text \<open>
  A writer's file at tick 1 with a page size of 4 bytes, whose metadata file is free from
  address 8192 on, and an index of three entries: page 9 is new and pending, page 5 is
  pending and has page 7 of the metadata file already, page 6 is not pending.
\<close>

definition example_publish_index :: "idx_entry list" where
  "example_publish_index =
     [example_entry 9 0 (Some [1, 2, 3, 4]), example_entry 5 7 (Some [5, 6, 7, 8]),
      example_entry 6 3 None]"

definition example_publish_file :: "nat H5F_shared" where
  "example_publish_file =
     (example_file 8192)\<lparr>fs_page_size := 4, mdf_idx := Some example_publish_index,
        mdf_idx_len := 3, mdf_idx_entries_used := 3\<rparr>"

text \<open>A delayed list with one extent (page 7 of the metadata file) that was superseded at tick 2.\<close>

definition example_delayed_file :: "uint64_t \<Rightarrow> unit H5F_shared" where
  "example_delayed_file tick =
     (example_file ())\<lparr>tick_num := tick,
        dl := [\<lparr>dl_hdf5_page_offset = 100, dl_md_file_page_offset = 7,
                dl_length = 4096, dl_tick_num = 2\<rparr>],
        dl_len := 1\<rparr>"

text \<open>
  A writer's file at tick 1 with 17 pages of 4 bytes reserved for the metadata file, which
  leave room for two index entries; and a tick list of the pages \<open>p\<close>, of 4 bytes each.
\<close>

definition example_capacity_file :: "unit H5F_shared" where
  "example_capacity_file = (example_file ())\<lparr>fs_page_size := 4, md_pages_reserved := 17\<rparr>"

definition example_tick_list :: "uint64_t list \<Rightarrow> tick_list_entry list" where
  "example_tick_list ps = map (\<lambda>p. (p, 4, [1, 2, 3, 4])) ps"

text \<open>The same file at tick 2, with the index that \<^verbatim>\<open>H5F__vfd_swmr_writer__create_index\<close> gives it.\<close>

definition example_created_file :: "unit H5F_shared" where
  "example_created_file =
     example_capacity_file\<lparr>calls := [HDmalloc 144], tick_num := 2,
        mdf_idx := Some [empty_idx_entry, empty_idx_entry], mdf_idx_len := 2\<rparr>"

text \<open>
  A metadata cache that is not clean: every call gives 7 but \<^verbatim>\<open>H5AC_cache_is_clean\<close>
  (false), \<^verbatim>\<open>H5AC_get_entry_status\<close> (in the cache) and \<^verbatim>\<open>H5AC_get_entry_ring\<close>
  (ring 2). The entry at \<open>4096\<close> is the one whose space is freed.
\<close>

definition sys_dirty_cache :: "'w sys" where
  "sys_dirty_cache c w =
     (case c of H5AC_cache_is_clean \<Rightarrow> (Some 0, w)
      | H5AC_get_entry_status a \<Rightarrow> (Some 1, w)
      | H5AC_get_entry_ring a \<Rightarrow> (Some 2, w)
      | _ \<Rightarrow> (Some 7, w))"

definition example_mf_ext :: "unit mf_ext" where
  "example_mf_ext =
     \<lparr>mf_sys = sys_dirty_cache, H5AC_RING_INV = 0, H5AC_RING_USER = 1, H5AC_ES__IN_CACHE = 1,
      H5CX_get_ring = 1, H5_now_usec = 1000\<rparr>"

definition example_cache_entry :: "haddr_t \<Rightarrow> bool \<Rightarrow> nat \<Rightarrow> H5AC_type_id \<Rightarrow> H5AC_info_t" where
  "example_cache_entry a d r t = \<lparr>addr = a, is_dirty = d, ring = r, type_id = Some t\<rparr>"

definition example_cache :: "H5AC_info_t list" where
  "example_cache =
     [example_cache_entry 4096 True 2 H5AC_OHDR_ID,
      example_cache_entry 8192 True 1 H5AC_BT2_HDR_ID,
      example_cache_entry 12288 True 3 H5AC_OHDR_ID,
      example_cache_entry 16384 False 1 H5AC_OHDR_CHK_ID,
      example_cache_entry 20480 True 2 H5AC_PROXY_ENTRY_ID,
      example_cache_entry 24576 True 2 H5AC_OHDR_CHK_ID]"

definition example_sys_state :: "unit sys_state" where
  "example_sys_state = \<lparr>world = (), calls = []\<rparr>"

section \<open>Properties\<close>

subsection \<open>Calls and little-endian fields\<close>

lemma do_call_eq:
  "do_call sys c f = (r, f') \<Longrightarrow> \<exists>w'. f' = f\<lparr>world := w', calls := calls f @ [c]\<rparr>"
  by (auto simp: do_call_def split: prod.splits)

lemma drop_bit_nat: "drop_bit n (x::nat) = x div 2 ^ n"
  by (rule drop_bit_eq_div)

lemma unat_byte0: "unat (ucast (w :: 'a::len word) :: 8 word) = unat w mod 256"
  by (simp add: unsigned_ucast_eq take_bit_eq_mod)

lemma le4:
  "(x::nat) mod 256 + 256 * ((x div 256) mod 256 + 256 * ((x div 65536) mod 256
      + 256 * ((x div 16777216) mod 256))) = x mod 4294967296"
proof -
  have a: "x mod (256 * 256) = 256 * ((x div 256) mod 256) + x mod 256"
    by (rule mod_mult2_eq)
  have b: "x mod (65536 * 256) = 65536 * ((x div 65536) mod 256) + x mod 65536"
    by (rule mod_mult2_eq)
  have c: "x mod (16777216 * 256) = 16777216 * ((x div 16777216) mod 256) + x mod 16777216"
    by (rule mod_mult2_eq)
  from a b c show ?thesis by simp
qed

lemma le_val_UINT32ENCODE: "le_val (UINT32ENCODE (w :: 'a::len word)) = unat w mod 2 ^ 32"
  using le4[of "unat w"] by (simp add: UINT32ENCODE_def unat_byte0 unat_drop_bit_eq drop_bit_nat)

lemma len32: "length (UINT32ENCODE w) = 4"
  by (simp add: UINT32ENCODE_def)

lemma len64: "length (UINT64ENCODE w) = 8"
  by (simp add: UINT64ENCODE_def)

lemma le_val_append: "le_val (xs @ ys) = le_val xs + 256 ^ length xs * le_val ys"
  by (induction xs) (simp_all add: algebra_simps)

lemma U64_split: "UINT64ENCODE (w :: 'a::len word) = UINT32ENCODE w @ UINT32ENCODE (drop_bit 32 w)"
  by (simp add: UINT64ENCODE_def UINT32ENCODE_def upt_rec drop_bit_drop_bit)

lemma le_val_UINT64ENCODE: "le_val (UINT64ENCODE (w :: 'a::len word)) = unat w mod 2 ^ 64"
proof -
  have "(unat w) mod (4294967296 * 4294967296)
      = 4294967296 * ((unat w div 4294967296) mod 4294967296) + unat w mod 4294967296"
    by (rule mod_mult2_eq)
  then show ?thesis
    unfolding U64_split le_val_append le_val_UINT32ENCODE unat_drop_bit_eq len32
    by (simp add: drop_bit_nat)
qed

lemma unat32_mod: "unat (w :: 32 word) mod 4294967296 = unat w"
  using unsigned_less[of w, where 'a=nat] by simp

lemma unat64_mod: "unat (w :: 64 word) mod 18446744073709551616 = unat w"
  using unsigned_less[of w, where 'a=nat] by simp

subsection \<open>The frames of the metadata file\<close>

lemma len_entry: "length (idx_entry_image e) = 16"
  by (simp add: idx_entry_image_def len32)

lemma length_concat16: "length (concat (map idx_entry_image es)) = 16 * length es"
  by (induction es) (simp_all add: len_entry)

lemma drop_concat16:
  "k \<le> length es \<Longrightarrow>
     drop (16 * k) (concat (map idx_entry_image es)) = concat (map idx_entry_image (drop k es))"
proof (induction es arbitrary: k)
  case Nil
  then show ?case by simp
next
  case (Cons e es)
  show ?case
  proof (cases k)
    case 0
    then show ?thesis by simp
  next
    case (Suc j)
    with Cons.prems have "j \<le> length es" by simp
    from Cons.IH[OF this] Suc show ?thesis by (simp add: len_entry)
  qed
qed

lemma entry_at:
  assumes "k < length es"
  shows "drop (16 * k) (concat (map idx_entry_image es) @ rest)
       = idx_entry_image (es ! k) @ concat (map idx_entry_image (drop (Suc k) es)) @ rest"
proof -
  from assms have "16 * k \<le> length (concat (map idx_entry_image es))"
    by (simp add: length_concat16)
  then have "drop (16 * k) (concat (map idx_entry_image es) @ rest)
      = drop (16 * k) (concat (map idx_entry_image es)) @ rest"
    by simp
  also have "drop (16 * k) (concat (map idx_entry_image es)) = concat (map idx_entry_image (drop k es))"
    using assms by (intro drop_concat16) simp
  also have "drop k es = es ! k # drop (Suc k) es"
    using assms by (simp add: Cons_nth_drop_Suc)
  finally show ?thesis by simp
qed

lemma entry_fields:
  "le_val (take 4 (idx_entry_image e @ r)) = unat (hdf5_page_offset e) mod 2 ^ 32"
  "le_val (take 4 (drop 4 (idx_entry_image e @ r))) = unat (md_file_page_offset e) mod 2 ^ 32"
  "le_val (take 4 (drop 8 (idx_entry_image e @ r))) = unat (length_bytes e)"
  "le_val (take 4 (drop 12 (idx_entry_image e @ r))) = unat (chksum e)"
  by (simp_all add: idx_entry_image_def len32 le_val_UINT32ENCODE unat32_mod)

lemma idx_size_unat:
  "20 + 16 * unat n < 2 ^ 32 \<Longrightarrow> unat (H5FD_MD_INDEX_SIZE n) = 20 + 16 * unat n"
  by (simp add: H5FD_MD_INDEX_SIZE_def H5FD_MD_INDEX_ENTRY_SIZE_def unat_word_ariths)

lemma hdr_layout:
  assumes "length (H5FD_MD_HEADER_MAGIC X) \<ge> 4" "20 + 16 * unat n < 2 ^ 32"
  shows "length (md_hdr_image X f n) = 36"
    "take 4 (md_hdr_image X f n) = take 4 (H5FD_MD_HEADER_MAGIC X)"
    "le_val (take 4 (drop 4 (md_hdr_image X f n))) = unat (fs_page_size f) mod 2 ^ 32"
    "le_val (take 8 (drop 8 (md_hdr_image X f n))) = unat (tick_num f)"
    "le_val (take 8 (drop 16 (md_hdr_image X f n))) = 36"
    "le_val (take 8 (drop 24 (md_hdr_image X f n))) = 20 + 16 * unat n"
    "le_val (drop 32 (md_hdr_image X f n))
       = unat (H5_checksum_metadata X (take 32 (md_hdr_image X f n)))"
  using assms idx_size_unat[OF assms(2)]
  by (simp_all add: md_hdr_image_def Let_def len32 len64 H5_SIZEOF_MAGIC_def le_val_UINT32ENCODE
      le_val_UINT64ENCODE unat32_mod unat64_mod H5FD_MD_HEADER_SIZE_def)

lemma idx_layout:
  assumes "length (H5FD_MD_INDEX_MAGIC X) \<ge> 4" "unat n \<le> length index"
  shows "length (md_idx_image X f n index) = 20 + 16 * unat n"
    "take 4 (md_idx_image X f n index) = take 4 (H5FD_MD_INDEX_MAGIC X)"
    "le_val (take 8 (drop 4 (md_idx_image X f n index))) = unat (tick_num f)"
    "le_val (take 4 (drop 12 (md_idx_image X f n index))) = unat n"
    "le_val (drop (16 + 16 * unat n) (md_idx_image X f n index))
       = unat (H5_checksum_metadata X (take (16 + 16 * unat n) (md_idx_image X f n index)))"
  using assms
  by (simp_all add: md_idx_image_def Let_def len32 len64 H5_SIZEOF_MAGIC_def length_concat16
      le_val_UINT32ENCODE le_val_UINT64ENCODE unat32_mod unat64_mod)

lemma idx_layout_entry:
  assumes "length (H5FD_MD_INDEX_MAGIC X) \<ge> 4" "unat n \<le> length index" "k < unat n"
  shows "le_val (take 4 (drop (16 + 16 * k) (md_idx_image X f n index)))
           = unat (hdf5_page_offset (index ! k)) mod 2 ^ 32"
    "le_val (take 4 (drop (20 + 16 * k) (md_idx_image X f n index)))
           = unat (md_file_page_offset (index ! k)) mod 2 ^ 32"
    "le_val (take 4 (drop (24 + 16 * k) (md_idx_image X f n index))) = unat (length_bytes (index ! k))"
    "le_val (take 4 (drop (28 + 16 * k) (md_idx_image X f n index))) = unat (chksum (index ! k))"
proof -
  let ?es = "take (unat n) index"
  let ?crc = "UINT32ENCODE (H5_checksum_metadata X (take H5_SIZEOF_MAGIC (H5FD_MD_INDEX_MAGIC X)
              @ UINT64ENCODE (tick_num f) @ UINT32ENCODE n @ concat (map idx_entry_image ?es)))"
  let ?img = "md_idx_image X f n index"
  have k: "k < length ?es" using assms by simp
  have nth: "?es ! k = index ! k" using assms by simp
  have d: "drop (16 + 16 * k) ?img
        = idx_entry_image (index ! k) @ concat (map idx_entry_image (drop (Suc k) ?es)) @ ?crc"
    using assms(1) entry_at[OF k, of ?crc] nth
    by (simp add: md_idx_image_def Let_def len32 len64 H5_SIZEOF_MAGIC_def)
  have e4: "drop (20 + 16 * k) ?img = drop 4 (drop (16 + 16 * k) ?img)"
    and e8: "drop (24 + 16 * k) ?img = drop 8 (drop (16 + 16 * k) ?img)"
    and e12: "drop (28 + 16 * k) ?img = drop 12 (drop (16 + 16 * k) ?img)"
    by (simp_all only: drop_drop) simp_all
  show "le_val (take 4 (drop (16 + 16 * k) ?img)) = unat (hdf5_page_offset (index ! k)) mod 2 ^ 32"
    unfolding d by (rule entry_fields)
  show "le_val (take 4 (drop (20 + 16 * k) ?img)) = unat (md_file_page_offset (index ! k)) mod 2 ^ 32"
    unfolding e4 d by (rule entry_fields)
  show "le_val (take 4 (drop (24 + 16 * k) ?img)) = unat (length_bytes (index ! k))"
    unfolding e8 d by (rule entry_fields)
  show "le_val (take 4 (drop (28 + 16 * k) ?img)) = unat (chksum (index ! k))"
    unfolding e12 d by (rule entry_fields)
qed

lemma hdr_image_upd: "md_hdr_image X (f\<lparr>world := w, calls := cs\<rparr>) n = md_hdr_image X f n"
  by (simp add: md_hdr_image_def)

lemma idx_image_upd:
  "md_idx_image X (f\<lparr>world := w, calls := cs\<rparr>) n index = md_idx_image X f n index"
  by (simp add: md_idx_image_def)

lemma hdr_write_calls:
  assumes "H5F__vfd_swmr_construct_write_md_hdr X f n = (None, f')"
    "length (H5FD_MD_HEADER_MAGIC X) \<ge> 4" "20 + 16 * unat n < 2 ^ 32"
  shows "calls f' = calls f @ [HDlseek 0, HDwrite (md_hdr_image X f n)]"
  using assms(1) hdr_layout(1)[OF assms(2,3), of f]
  by (auto simp: H5F__vfd_swmr_construct_write_md_hdr_def Let_def H5FD_MD_HEADER_SIZE_def
      H5FD_MD_HEADER_OFF_def hdr_image_upd
      split: prod.splits option.splits if_splits dest!: do_call_eq)

lemma idx_write_bounds:
  assumes "H5F__vfd_swmr_construct_write_md_idx X f n index = (None, f')"
  shows "unat n \<le> length (case index of None \<Rightarrow> [] | Some a \<Rightarrow> a)" "20 + 16 * unat n < 2 ^ 32"
  using assms
  by (auto simp: H5F__vfd_swmr_construct_write_md_idx_def Let_def
      split: prod.splits option.splits if_splits)

lemma idx_write_calls:
  assumes "H5F__vfd_swmr_construct_write_md_idx X f n index = (None, f')"
    "length (H5FD_MD_INDEX_MAGIC X) \<ge> 4"
  shows "calls f' = calls f @ [HDmalloc (ucast (H5FD_MD_INDEX_SIZE n)), HDlseek 36,
           HDwrite (md_idx_image X f n (case index of None \<Rightarrow> [] | Some a \<Rightarrow> a))]"
  using assms(1) idx_write_bounds[OF assms(1)]
    idx_layout(1)[OF assms(2) idx_write_bounds(1)[OF assms(1)], of f]
    idx_size_unat[OF idx_write_bounds(2)[OF assms(1)]]
  by (auto simp: H5F__vfd_swmr_construct_write_md_idx_def Let_def H5FD_MD_HEADER_SIZE_def
      H5FD_MD_HEADER_OFF_def idx_image_upd
      split: prod.splits option.splits if_splits dest!: do_call_eq)

text \<open>
  C6. The image of the header is 36 bytes: the magic, the page size in 4 bytes, the tick
  number in 8, the header size 36 in 8, the size of the index in bytes in 8, and the
  checksum of these 32 bytes in 4. The image of the index is the magic, the same tick
  number in 8 bytes, the number of entries in 4, then 16 bytes for each entry (page
  offset, metadata file page offset, length, checksum, 4 bytes each, the 64-bit offsets
  cut to their low 32 bits) and the checksum of all of this in 4 bytes. Every field is
  little-endian. A successful call of the two functions writes exactly these images, the
  header at offset 0 and the index at offset 36.
\<close>

theorem md_frames_layout:
  assumes "4 \<le> length (H5FD_MD_HEADER_MAGIC X)" and "4 \<le> length (H5FD_MD_INDEX_MAGIC X)"
    and "unat n \<le> length index" and "20 + 16 * unat n < 2 ^ 32"
  shows "length (md_hdr_image X f n) = 36
    \<and> take 4 (md_hdr_image X f n) = take 4 (H5FD_MD_HEADER_MAGIC X)
    \<and> le_val (take 4 (drop 4 (md_hdr_image X f n))) = unat (fs_page_size f) mod 2 ^ 32
    \<and> le_val (take 8 (drop 8 (md_hdr_image X f n))) = unat (tick_num f)
    \<and> le_val (take 8 (drop 16 (md_hdr_image X f n))) = 36
    \<and> le_val (take 8 (drop 24 (md_hdr_image X f n))) = length (md_idx_image X f n index)
    \<and> le_val (drop 32 (md_hdr_image X f n))
        = unat (H5_checksum_metadata X (take 32 (md_hdr_image X f n)))
    \<and> length (md_idx_image X f n index) = 20 + 16 * unat n
    \<and> take 4 (md_idx_image X f n index) = take 4 (H5FD_MD_INDEX_MAGIC X)
    \<and> le_val (take 8 (drop 4 (md_idx_image X f n index))) = unat (tick_num f)
    \<and> le_val (take 4 (drop 12 (md_idx_image X f n index))) = unat n
    \<and> (\<forall>k < unat n.
          le_val (take 4 (drop (16 + 16 * k) (md_idx_image X f n index)))
            = unat (hdf5_page_offset (index ! k)) mod 2 ^ 32
        \<and> le_val (take 4 (drop (20 + 16 * k) (md_idx_image X f n index)))
            = unat (md_file_page_offset (index ! k)) mod 2 ^ 32
        \<and> le_val (take 4 (drop (24 + 16 * k) (md_idx_image X f n index)))
            = unat (length_bytes (index ! k))
        \<and> le_val (take 4 (drop (28 + 16 * k) (md_idx_image X f n index)))
            = unat (chksum (index ! k)))
    \<and> le_val (drop (16 + 16 * unat n) (md_idx_image X f n index))
        = unat (H5_checksum_metadata X (take (16 + 16 * unat n) (md_idx_image X f n index)))
    \<and> (\<forall>f'. H5F__vfd_swmr_construct_write_md_hdr X f n = (None, f')
          \<longrightarrow> calls f' = calls f @ [HDlseek 0, HDwrite (md_hdr_image X f n)])
    \<and> (\<forall>f'. H5F__vfd_swmr_construct_write_md_idx X f n (Some index) = (None, f')
          \<longrightarrow> calls f' = calls f @ [HDmalloc (ucast (H5FD_MD_INDEX_SIZE n)), HDlseek 36,
                                     HDwrite (md_idx_image X f n index)])"
  using hdr_layout[OF assms(1,4), of f] idx_layout[OF assms(2,3), of f]
    idx_layout_entry[OF assms(2,3), of _ f] hdr_write_calls[OF _ assms(1,4), of f]
    idx_write_calls[OF _ assms(2), of f n "Some index"]
  by simp

theorem md_frames_layout_witness:
  "length (md_hdr_image (example_ext sys_ok) (example_file ()) 1) = 36
   \<and> le_val (take 8 (drop 24 (md_hdr_image (example_ext sys_ok) (example_file ()) 1))) = 36
   \<and> length (md_idx_image (example_ext sys_ok) (example_file ()) 1 [example_entry 100 7 None]) = 36
   \<and> le_val (take 4 (drop 16 (md_idx_image (example_ext sys_ok) (example_file ()) 1
        [example_entry 100 7 None]))) = 100
   \<and> le_val (take 4 (drop 20 (md_idx_image (example_ext sys_ok) (example_file ()) 1
        [example_entry 100 7 None]))) = 7
   \<and> calls (snd (H5F__vfd_swmr_construct_write_md_hdr (example_ext sys_ok) (example_file ()) 1))
       = [HDlseek 0, HDwrite (md_hdr_image (example_ext sys_ok) (example_file ()) 1)]"
proof -
  have m: "4 \<le> length (H5FD_MD_HEADER_MAGIC (example_ext sys_ok :: unit ext))"
    "4 \<le> length (H5FD_MD_INDEX_MAGIC (example_ext sys_ok :: unit ext))"
    "unat (1 :: uint32_t) \<le> length [example_entry 100 7 None]"
    "20 + 16 * unat (1 :: uint32_t) < 2 ^ 32"
    by (simp_all add: example_ext_def)
  have w: "H5F__vfd_swmr_construct_write_md_hdr (example_ext sys_ok) (example_file ()) 1
       = (None, snd (H5F__vfd_swmr_construct_write_md_hdr (example_ext sys_ok) (example_file ()) 1))"
    by (simp add: H5F__vfd_swmr_construct_write_md_hdr_def Let_def do_call_def example_ext_def
        sys_ok_def hdr_layout(1) H5FD_MD_HEADER_SIZE_def)
  show ?thesis
    using md_frames_layout[OF m, of "example_file ()"] w
    by (simp add: example_entry_def empty_idx_entry_def example_file_def)
qed

subsection \<open>The end-of-tick queue\<close>

lemmas eot_insert_simps =
  eot_insert_at_def H5F_vfd_swmr_insert_entry_eot_def example_file_def eot_empty_def
  eot_find_prec.simps H5F_EOT_INSERT_AFTER_def H5F__LL_PREPEND_def H5F__LL_APPEND_def
  set_next_def set_prev_def eot_set_globals_def timespeccmp_gt_def eval_nat_numeral

text \<open>
  C4 at the input of the claim: files with the end of tick at 100, 200 and 150 are
  inserted into the empty queue, in this order. The queue that the code builds holds them
  in the order 100, 200, 150. The walk from the tail stops at the entry of 100, which is
  the head; for a predecessor with \<open>prev == NULL\<close> the macro appends at the tail.
\<close>

theorem eot_insert_100_200_150:
  "\<exists>g1 g2 g3.
     eot_insert_at 1 100 eot_empty = Inr g1 \<and> eot_insert_at 2 200 g1 = Inr g2
     \<and> eot_insert_at 3 150 g2 = Inr g3
     \<and> map eot_end_of_tick (eot_chain (eot_heap g3) 3 (vfd_swmr_eot_queue_head_g g3))
         = [(0, 100), (0, 200), (0, 150)]
     \<and> vfd_swmr_eot_queue_tail_g g3 = Some 3"
  by (simp add: eot_insert_simps)

text \<open>
  The third branch of the macro: with the same two entries in the queue, a file whose end
  of tick is 300 has the tail as predecessor, whose \<open>next\<close> is \<^verbatim>\<open>NULL\<close>, and
  \<^verbatim>\<open>prec_ptr->next->prev\<close> dereferences it.
\<close>

lemma eot_insert_100_200_300:
  "\<exists>g1 g2.
     eot_insert_at 1 100 eot_empty = Inr g1 \<and> eot_insert_at 2 200 g1 = Inr g2
     \<and> eot_insert_at 3 300 g2 = Inl UNDEFINED_behaviour"
  by (simp add: eot_insert_simps)

text \<open>
  C10. Called with \<open>f == NULL\<close>, the end-of-tick functions take the file of the entry at
  the head of the queue and do not test the head: with an empty queue the statement
  dereferences \<^verbatim>\<open>NULL\<close>; with an entry at the head it yields the file of that entry,
  and so it does not dereference \<^verbatim>\<open>NULL\<close>. A file that is passed is used as it is.
\<close>

theorem eot_file_or_head_needs_entry:
  "(vfd_swmr_eot_queue_head_g g = None \<longrightarrow> eot_file_or_head g None = Inl UNDEFINED_behaviour)
   \<and> (\<forall>h hn. vfd_swmr_eot_queue_head_g g = Some h \<and> eot_heap g h = Some hn
         \<longrightarrow> eot_file_or_head g None = Inr (vfd_swmr_file hn))
   \<and> eot_file_or_head g (Some p) = Inr p"
  by (simp add: eot_file_or_head_def)

theorem eot_file_or_head_needs_entry_witness:
  "eot_file_or_head eot_empty None = Inl UNDEFINED_behaviour
   \<and> (\<exists>g1. eot_insert_at 1 100 eot_empty = Inr g1 \<and> eot_file_or_head g1 None = Inr 10)"
proof -
  obtain g1 where g1: "eot_insert_at 1 100 eot_empty = Inr g1"
    and h: "vfd_swmr_eot_queue_head_g g1 = Some 1"
    and e: "map_option vfd_swmr_file (eot_heap g1 1) = Some 10"
    by (simp add: eot_insert_simps)
  from e obtain hn where hn: "eot_heap g1 1 = Some hn" "vfd_swmr_file hn = 10"
    by auto
  have "vfd_swmr_eot_queue_head_g eot_empty = None"
    by (simp add: eot_empty_def)
  with eot_file_or_head_needs_entry[of eot_empty] eot_file_or_head_needs_entry[of g1] g1 h hn
  show ?thesis by auto
qed

subsection \<open>The delay-write oracle\<close>

lemma idx_search_correct:
  assumes "0 \<le> bottom" "top' < int (length idx)" "top' < 1073741824"
    and "\<forall>i j. bottom \<le> int i \<and> i < j \<and> int j \<le> top'
           \<longrightarrow> hdf5_page_offset (idx ! i) < hdf5_page_offset (idx ! j)"
  shows "case idx_search idx page top' bottom of
           Inl _ \<Rightarrow> False
         | Inr None \<Rightarrow> (\<forall>k. bottom \<le> int k \<and> int k \<le> top' \<longrightarrow> hdf5_page_offset (idx ! k) \<noteq> page)
         | Inr (Some k) \<Rightarrow> bottom \<le> int k \<and> int k \<le> top' \<and> hdf5_page_offset (idx ! k) = page"
  using assms
proof (induction idx page top' bottom rule: idx_search.induct)
  case (1 idx page top' bottom)
  show ?case
  proof (cases "top' \<ge> bottom")
    case False
    then show ?thesis by (auto simp: idx_search.simps[of idx page top' bottom])
  next
    case True
    define probe where "probe = c_div2 (top' + bottom)"
    have pr: "bottom \<le> probe" "probe \<le> top'"
      using True "1.prems"(1) by (auto simp: probe_def c_div2_def)
    have nov: "\<not> (top' + bottom > 2147483647 \<or> top' + bottom < - 2147483648)"
      using True "1.prems" by auto
    have inb: "\<not> (probe < 0 \<or> probe \<ge> int (length idx))"
      using pr "1.prems" by auto
    consider (lt) "hdf5_page_offset (idx ! nat probe) < page"
      | (gt) "hdf5_page_offset (idx ! nat probe) > page"
      | (eq) "hdf5_page_offset (idx ! nat probe) = page"
      by fastforce
    then show ?thesis
    proof cases
      case lt
      have eq: "idx_search idx page top' bottom = idx_search idx page top' (probe + 1)"
        using True nov inb lt by (subst idx_search.simps) (simp add: probe_def Let_def)
      have IH: "case idx_search idx page top' (probe + 1) of
           Inl _ \<Rightarrow> False
         | Inr None \<Rightarrow> (\<forall>k. probe + 1 \<le> int k \<and> int k \<le> top' \<longrightarrow> hdf5_page_offset (idx ! k) \<noteq> page)
         | Inr (Some k) \<Rightarrow> probe + 1 \<le> int k \<and> int k \<le> top' \<and> hdf5_page_offset (idx ! k) = page"
        using "1.IH"(1)[OF True nov probe_def inb lt] pr "1.prems" by auto
      have below: "\<forall>k. bottom \<le> int k \<and> int k \<le> probe \<longrightarrow> hdf5_page_offset (idx ! k) \<noteq> page"
      proof (intro allI impI)
        fix k assume k: "bottom \<le> int k \<and> int k \<le> probe"
        show "hdf5_page_offset (idx ! k) \<noteq> page"
        proof (cases "int k = probe")
          case True
          then have "k = nat probe" by simp
          with lt show ?thesis by simp
        next
          case False
          with k have "k < nat probe" by linarith
          with "1.prems"(4) k pr
          have "hdf5_page_offset (idx ! k) < hdf5_page_offset (idx ! nat probe)"
            by auto
          with lt show ?thesis by simp
        qed
      qed
      have split: "\<And>k. bottom \<le> int k \<Longrightarrow> int k \<le> probe \<or> probe + 1 \<le> int k"
        by linarith
      show ?thesis unfolding eq using IH below pr split
        by (auto split: sum.splits option.splits)
    next
      case gt
      have nlt: "\<not> hdf5_page_offset (idx ! nat probe) < page" using gt by simp
      have eq: "idx_search idx page top' bottom = idx_search idx page (probe - 1) bottom"
        using True nov inb gt nlt by (subst idx_search.simps) (simp add: probe_def Let_def)
      have IH: "case idx_search idx page (probe - 1) bottom of
           Inl _ \<Rightarrow> False
         | Inr None \<Rightarrow> (\<forall>k. bottom \<le> int k \<and> int k \<le> probe - 1 \<longrightarrow> hdf5_page_offset (idx ! k) \<noteq> page)
         | Inr (Some k) \<Rightarrow> bottom \<le> int k \<and> int k \<le> probe - 1 \<and> hdf5_page_offset (idx ! k) = page"
        using "1.IH"(2)[OF True nov probe_def inb nlt gt] pr "1.prems" by auto
      have above: "\<forall>k. probe \<le> int k \<and> int k \<le> top' \<longrightarrow> hdf5_page_offset (idx ! k) \<noteq> page"
      proof (intro allI impI)
        fix k assume k: "probe \<le> int k \<and> int k \<le> top'"
        show "hdf5_page_offset (idx ! k) \<noteq> page"
        proof (cases "int k = probe")
          case True
          then have "k = nat probe" by simp
          with gt show ?thesis by simp
        next
          case False
          with k inb have "nat probe < k" by linarith
          with "1.prems"(4) k pr inb
          have "hdf5_page_offset (idx ! nat probe) < hdf5_page_offset (idx ! k)"
            by auto
          with gt show ?thesis by simp
        qed
      qed
      have split: "\<And>k. int k \<le> top' \<Longrightarrow> int k \<le> probe - 1 \<or> probe \<le> int k"
        by linarith
      show ?thesis unfolding eq using IH above pr split
        by (auto split: sum.splits option.splits)
    next
      case eq
      have "idx_search idx page top' bottom = Inr (Some (nat probe))"
        using True nov inb eq by (subst idx_search.simps) (simp add: probe_def Let_def)
      then show ?thesis using pr inb eq by simp
    qed
  qed
qed

lemma find_sorted_nth:
  assumes "sorted_wrt (<) (map hdf5_page_offset xs)" "k < length xs" "hdf5_page_offset (xs ! k) = page"
  shows "find (\<lambda>e. hdf5_page_offset e = page) xs = Some (xs ! k)"
proof -
  have "\<forall>j<k. hdf5_page_offset (xs ! j) \<noteq> page"
  proof (intro allI impI)
    fix j assume "j < k"
    with assms have "hdf5_page_offset (xs ! j) < hdf5_page_offset (xs ! k)"
      by (auto simp: sorted_wrt_iff_nth_less)
    with assms(3) show "hdf5_page_offset (xs ! j) \<noteq> page" by simp
  qed
  with assms(2,3) show ?thesis
    unfolding find_Some_iff by blast
qed

lemma sint_pred:
  assumes "unat (w :: 32 word) \<le> 1073741824"
  shows "sint (w - 1) = int (unat w) - 1"
proof (cases "w = 0")
  case True
  then show ?thesis by simp
next
  case False
  then have u: "unat (w - 1) = unat w - 1" by (rule unat_minus_one)
  from False have nz: "unat w \<noteq> 0" by (simp add: unat_eq_0)
  have "uint (w - 1) = int (unat (w - 1))" by simp
  also have "\<dots> = int (unat w) - 1" unfolding u using nz by (simp only: of_nat_diff)
  finally have b: "uint (w - 1) = int (unat w) - 1" .
  have lt: "int (unat w) - 1 < 2 ^ 31" using assms by (simp del: of_nat_unat)
  have ge: "- (2 ^ 31) \<le> int (unat w) - 1" by (simp del: of_nat_unat)
  have "sint (w - 1) = signed_take_bit 31 (uint (w - 1))"
    by (simp add: sint_uint)
  also have "\<dots> = int (unat w) - 1"
    unfolding b using ge lt by (rule signed_take_bit_int_eq_self)
  finally show ?thesis .
qed

lemma tick_plus_lag:
  assumes "unat (t :: 64 word) + unat (l :: 32 word) < 2 ^ 64"
  shows "t \<le> t + ucast l"
proof -
  have "unat (ucast l :: 64 word) = unat l"
    by (simp add: unsigned_ucast_eq take_bit_nat_eq_self unsigned_less[of l, where 'a=nat, THEN less_trans])
  with assms have "unat (t + ucast l) = unat t + unat l"
    using unat_add_lem[of t "ucast l"] by simp
  then show ?thesis by (simp add: word_le_nat_alt)
qed

text \<open>
  C3, as the code has it. On an index whose used entries are sorted by page offset (fewer
  than \<open>2^30\<close> of them, so that the probe does not overflow) and with
  \<open>tick_num + max_lag\<close> below \<open>2^64\<close>, the oracle returns \<open>tick_num + max_lag\<close> for a
  page the index does not hold; for a page it holds, the entry's \<open>delayed_flush\<close> when
  \<open>tick_num \<le> delayed_flush \<le> tick_num + max_lag\<close>, the error "write delay out of range"
  when \<open>delayed_flush\<close> is beyond \<open>tick_num + max_lag\<close>, and 0 when \<open>delayed_flush\<close> is
  below \<open>tick_num\<close>. The value 0 is returned without the range test.
\<close>

theorem delay_write_result:
  assumes "mdf_idx f = Some idx"
    and "unat (mdf_idx_entries_used f) \<le> length idx"
    and "unat (mdf_idx_entries_used f) \<le> 1073741824"
    and "sorted_wrt (<) (map hdf5_page_offset (take (unat (mdf_idx_entries_used f)) idx))"
    and "unat (tick_num f) + unat (max_lag f) < 2 ^ 64"
  shows "H5F_vfd_swmr_writer__delay_write f page =
     (case find (\<lambda>e. hdf5_page_offset e = page) (take (unat (mdf_idx_entries_used f)) idx) of
        None \<Rightarrow> Inr (tick_num f + ucast (max_lag f))
      | Some e \<Rightarrow>
          if tick_num f \<le> delayed_flush e
          then (if delayed_flush e \<le> tick_num f + ucast (max_lag f) then Inr (delayed_flush e)
                else Inl SYSTEM_delay_out_of_range)
          else Inr 0)"
proof -
  define n where "n = unat (mdf_idx_entries_used f)"
  define xs where "xs = take n idx"
  have n: "n \<le> length idx" "n \<le> 1073741824" "sorted_wrt (<) (map hdf5_page_offset xs)"
    using assms(2-4) by (simp_all add: n_def xs_def)
  have top: "sint (mdf_idx_entries_used f - 1) = int n - 1"
    unfolding n_def using assms(3) by (rule sint_pred)
  have srt: "\<forall>i j. 0 \<le> int i \<and> i < j \<and> int j \<le> int n - 1
           \<longrightarrow> hdf5_page_offset (idx ! i) < hdf5_page_offset (idx ! j)"
  proof (intro allI impI)
    fix i j assume a: "0 \<le> int i \<and> i < j \<and> int j \<le> int n - 1"
    then have ij: "i < j" and j: "j < n" by linarith+
    with n(1) have "j < length xs" by (simp add: xs_def)
    with n(3) ij have "hdf5_page_offset (xs ! i) < hdf5_page_offset (xs ! j)"
      by (simp add: sorted_wrt_iff_nth_less)
    moreover have "xs ! i = idx ! i" "xs ! j = idx ! j" using ij j by (simp_all add: xs_def)
    ultimately show "hdf5_page_offset (idx ! i) < hdf5_page_offset (idx ! j)" by simp
  qed
  have le: "tick_num f \<le> tick_num f + ucast (max_lag f)"
    using assms(5) by (rule tick_plus_lag)
  have b: "int n - 1 < int (length idx)" "int n - 1 < 1073741824"
    using n(1,2) by linarith+
  from idx_search_correct[OF _ b srt, of page]
  have S: "case idx_search idx page (int n - 1) 0 of
           Inl _ \<Rightarrow> False
         | Inr None \<Rightarrow> (\<forall>k. 0 \<le> int k \<and> int k \<le> int n - 1 \<longrightarrow> hdf5_page_offset (idx ! k) \<noteq> page)
         | Inr (Some k) \<Rightarrow> 0 \<le> int k \<and> int k \<le> int n - 1 \<and> hdf5_page_offset (idx ! k) = page"
    by simp
  have goal: "H5F_vfd_swmr_writer__delay_write f page =
     (case find (\<lambda>e. hdf5_page_offset e = page) xs of
        None \<Rightarrow> Inr (tick_num f + ucast (max_lag f))
      | Some e \<Rightarrow>
          if tick_num f \<le> delayed_flush e
          then (if delayed_flush e \<le> tick_num f + ucast (max_lag f) then Inr (delayed_flush e)
                else Inl SYSTEM_delay_out_of_range)
          else Inr 0)"
  proof (cases "idx_search idx page (int n - 1) 0")
    case (Inl e)
    with S show ?thesis by simp
  next
    case (Inr r)
    show ?thesis
    proof (cases r)
      case None
      with S Inr have "\<forall>k. k < n \<longrightarrow> hdf5_page_offset (idx ! k) \<noteq> page"
        by (auto simp: zle_diff1_eq)
      then have "find (\<lambda>e. hdf5_page_offset e = page) xs = None"
        using n(1) by (auto simp: find_None_iff in_set_conv_nth xs_def)
      with Inr None le show ?thesis
        by (simp add: H5F_vfd_swmr_writer__delay_write_def assms(1) top Let_def)
    next
      case (Some k)
      with S Inr have k: "k < n" "hdf5_page_offset (idx ! k) = page" by auto
      then have "find (\<lambda>e. hdf5_page_offset e = page) xs = Some (xs ! k)"
        using n by (intro find_sorted_nth) (auto simp: xs_def)
      with k have fnd: "find (\<lambda>e. hdf5_page_offset e = page) xs = Some (idx ! k)"
        by (simp add: xs_def)
      show ?thesis using Inr Some le
        by (auto simp: H5F_vfd_swmr_writer__delay_write_def assms(1) top Let_def fnd)
    qed
  qed
  then show ?thesis by (simp add: xs_def n_def)
qed

theorem delay_write_result_witness:
  "H5F_vfd_swmr_writer__delay_write example_index_file 5 = Inr 0
   \<and> H5F_vfd_swmr_writer__delay_write example_index_file 7 = Inr 6
   \<and> H5F_vfd_swmr_writer__delay_write example_index_file 8 = Inr 4
   \<and> H5F_vfd_swmr_writer__delay_write example_index_file 9 = Inl SYSTEM_delay_out_of_range"
proof -
  let ?idx = "[(example_entry 5 1 None)\<lparr>delayed_flush := 0\<rparr>,
               (example_entry 8 2 None)\<lparr>delayed_flush := 4\<rparr>,
               (example_entry 9 3 None)\<lparr>delayed_flush := 100\<rparr>]"
  have h: "mdf_idx example_index_file = Some ?idx"
    "unat (mdf_idx_entries_used example_index_file) \<le> length ?idx"
    "unat (mdf_idx_entries_used example_index_file) \<le> 1073741824"
    "sorted_wrt (<) (map hdf5_page_offset (take (unat (mdf_idx_entries_used example_index_file)) ?idx))"
    "unat (tick_num example_index_file) + unat (max_lag example_index_file) < 2 ^ 64"
    by (simp_all add: example_index_file_def example_file_def example_entry_def)
  show ?thesis
    using delay_write_result[OF h, of 5] delay_write_result[OF h, of 7]
      delay_write_result[OF h, of 8] delay_write_result[OF h, of 9]
    by (simp add: example_index_file_def example_file_def example_entry_def)
qed

text \<open>
  The claim C3 fails where the oracle returns 0: the call succeeds although 0 is not in
  the interval from \<open>tick_num\<close> to \<open>tick_num + max_lag\<close> (here from 3 to 6).
\<close>

theorem delay_write_zero_outside_range:
  "H5F_vfd_swmr_writer__delay_write example_index_file 5 = Inr 0
   \<and> \<not> (tick_num example_index_file \<le> 0
         \<and> 0 \<le> tick_num example_index_file + ucast (max_lag example_index_file))"
  by (simp add: H5F_vfd_swmr_writer__delay_write_def example_index_file_def example_file_def
      example_entry_def idx_search.simps c_div2_def Let_def)

subsection \<open>The reader's comparison of the indexes\<close>

lemma evict_page_calls:
  "evict_page X pass t page f = (None, f1) \<Longrightarrow>
     \<exists>w. f1 = f\<lparr>world := w, calls := calls f @ [evict_call pass t (pb_page_size f) page]\<rparr>"
  by (auto simp: evict_page_def evict_call_def split: if_splits prod.splits option.splits dest!: do_call_eq)

lemma stale_pages_skip_new:
  "\<forall>x\<in>set old. hdf5_page_offset x \<noteq> hdf5_page_offset n \<Longrightarrow>
     stale_pages old (n # ns) = stale_pages old ns"
  unfolding stale_pages_def
  by (rule arg_cong[where f="map hdf5_page_offset"], rule filter_cong) auto

lemma stale_pages_eq:
  assumes "hdf5_page_offset ol = hdf5_page_offset n" "sorted_wrt (<) (map hdf5_page_offset (ol # os))"
  shows "stale_pages (ol # os) (n # ns)
       = (if md_file_page_offset ol \<noteq> md_file_page_offset n then [hdf5_page_offset n] else [])
         @ stale_pages os ns"
proof -
  from assms have "\<forall>x\<in>set os. hdf5_page_offset x \<noteq> hdf5_page_offset n" by auto
  then have "stale_pages os (n # ns) = stale_pages os ns" by (rule stale_pages_skip_new)
  then show ?thesis using assms(1) by (simp add: stale_pages_def)
qed

lemma stale_pages_lt:
  assumes "hdf5_page_offset ol < hdf5_page_offset n" "sorted_wrt (<) (map hdf5_page_offset (n # ns))"
  shows "stale_pages (ol # os) (n # ns) = hdf5_page_offset ol # stale_pages os (n # ns)"
proof -
  from assms have "\<forall>x\<in>set (n # ns). hdf5_page_offset x \<noteq> hdf5_page_offset ol" by auto
  then have "find (\<lambda>new_e. hdf5_page_offset new_e = hdf5_page_offset ol) (n # ns) = None"
    unfolding find_None_iff by blast
  then show ?thesis by (simp add: stale_pages_def)
qed

lemma stale_pages_gt:
  assumes "hdf5_page_offset n < hdf5_page_offset ol" "sorted_wrt (<) (map hdf5_page_offset (ol # os))"
  shows "stale_pages (ol # os) (n # ns) = stale_pages (ol # os) ns"
proof -
  from assms have "\<forall>x\<in>set (ol # os). hdf5_page_offset x \<noteq> hdf5_page_offset n" by auto
  then show ?thesis by (rule stale_pages_skip_new)
qed

lemma diff_walk_calls:
  assumes "diff_walk X pass t old new f = (None, f')"
    and "sorted_wrt (<) (map hdf5_page_offset old)" "sorted_wrt (<) (map hdf5_page_offset new)"
  shows "\<exists>w. f' = f\<lparr>world := w,
            calls := calls f @ map (evict_call pass t (pb_page_size f)) (stale_pages old new)\<rparr>"
  using assms
proof (induction X pass t old new f rule: diff_walk.induct)
  case (1 X pass t ol os n ns f)
  consider (eq) "hdf5_page_offset ol = hdf5_page_offset n"
    | (lt) "hdf5_page_offset ol < hdf5_page_offset n"
    | (gt) "hdf5_page_offset n < hdf5_page_offset ol"
    by fastforce
  then show ?case
  proof cases
    case eq
    have so: "sorted_wrt (<) (map hdf5_page_offset os)" and sn: "sorted_wrt (<) (map hdf5_page_offset ns)"
      using "1.prems" by simp_all
    show ?thesis
    proof (cases "md_file_page_offset ol \<noteq> md_file_page_offset n")
      case True
      with eq "1.prems"(1) obtain f1 where
        e: "evict_page X pass t (hdf5_page_offset n) f = (None, f1)"
        and w: "diff_walk X pass t os ns f1 = (None, f')"
        by (auto split: prod.splits option.splits)
      from evict_page_calls[OF e] obtain w1 where
        f1: "f1 = f\<lparr>world := w1, calls := calls f @ [evict_call pass t (pb_page_size f) (hdf5_page_offset n)]\<rparr>"
        by blast
      from "1.IH"(1)[OF eq True _ _ w so sn] e obtain w2 where
        "f' = f1\<lparr>world := w2, calls := calls f1 @ map (evict_call pass t (pb_page_size f1)) (stale_pages os ns)\<rparr>"
        by auto
      then show ?thesis using f1 True stale_pages_eq[OF eq "1.prems"(2), of ns]
        by auto
    next
      case False
      with eq "1.prems"(1) have w: "diff_walk X pass t os ns f = (None, f')" by simp
      from "1.IH"(2)[OF eq False w so sn] False stale_pages_eq[OF eq "1.prems"(2), of ns]
      show ?thesis by auto
    qed
  next
    case lt
    then have ne: "hdf5_page_offset ol \<noteq> hdf5_page_offset n" by simp
    have so: "sorted_wrt (<) (map hdf5_page_offset os)"
      using "1.prems" by simp
    from lt ne "1.prems"(1) obtain f1 where
      e: "evict_page X pass t (hdf5_page_offset ol) f = (None, f1)"
      and w: "diff_walk X pass t os (n # ns) f1 = (None, f')"
      by (auto split: prod.splits option.splits)
    from evict_page_calls[OF e] obtain w1 where
      f1: "f1 = f\<lparr>world := w1, calls := calls f @ [evict_call pass t (pb_page_size f) (hdf5_page_offset ol)]\<rparr>"
      by blast
    from "1.IH"(3)[OF ne lt _ _ w so "1.prems"(3)] e obtain w2 where
      "f' = f1\<lparr>world := w2, calls := calls f1 @ map (evict_call pass t (pb_page_size f1)) (stale_pages os (n # ns))\<rparr>"
      by auto
    then show ?thesis using f1 stale_pages_lt[OF lt "1.prems"(3), of os]
      by auto
  next
    case gt
    then have ne: "hdf5_page_offset ol \<noteq> hdf5_page_offset n" and nlt: "\<not> hdf5_page_offset ol < hdf5_page_offset n"
      by simp_all
    have sn: "sorted_wrt (<) (map hdf5_page_offset ns)"
      using "1.prems" by simp
    from ne nlt "1.prems"(1) have w: "diff_walk X pass t (ol # os) ns f = (None, f')" by simp
    from "1.IH"(4)[OF ne nlt w "1.prems"(2) sn] stale_pages_gt[OF gt "1.prems"(2), of ns]
    show ?thesis by auto
  qed
next
  case (2 X pass t ol os f)
  have so: "sorted_wrt (<) (map hdf5_page_offset os)"
    using "2.prems" by simp
  from "2.prems"(1) obtain f1 where
    e: "evict_page X pass t (hdf5_page_offset ol) f = (None, f1)"
    and w: "diff_walk X pass t os [] f1 = (None, f')"
    by (auto split: prod.splits option.splits)
  from evict_page_calls[OF e] obtain w1 where
    f1: "f1 = f\<lparr>world := w1, calls := calls f @ [evict_call pass t (pb_page_size f) (hdf5_page_offset ol)]\<rparr>"
    by blast
  from "2.IH"[OF _ _ w so] e obtain w2 where
    "f' = f1\<lparr>world := w2, calls := calls f1 @ map (evict_call pass t (pb_page_size f1)) (stale_pages os [])\<rparr>"
    by auto
  then show ?case using f1 by (auto simp: stale_pages_def)
next
  case (3 X pass t new f)
  then have "f' = f\<lparr>world := world f, calls := calls f @ []\<rparr>" by simp
  then show ?case unfolding stale_pages_def by (intro exI[of _ "world f"]) simp
qed

lemma reader_diff_pass_calls:
  assumes "reader_diff_pass X pass t f = (None, f')"
    and "sorted_wrt (<) (map hdf5_page_offset (reader_old_entries f))"
    and "sorted_wrt (<) (map hdf5_page_offset (reader_new_entries f))"
  shows "\<exists>w. f' = f\<lparr>world := w,
            calls := calls f @ map (evict_call pass t (pb_page_size f))
                                 (stale_pages (reader_old_entries f) (reader_new_entries f))\<rparr>"
proof -
  from assms(1) have "diff_walk X pass t (reader_old_entries f) (reader_new_entries f) f = (None, f')"
    by (simp add: reader_diff_pass_def reader_old_entries_def reader_new_entries_def Let_def
        split: if_splits)
  from diff_walk_calls[OF this assms(2,3)] show ?thesis .
qed

text \<open>
  C5. When the old and the new index are sorted by page offset and the comparison
  succeeds, the calls it has made are: for every page that is in both indexes at
  different places of the metadata file or in the old index only, in the order of the old
  index, the removal of the page from the page buffer (pass 0); after all of these, for
  the same pages in the same order, the eviction or refresh of the page's entries in the
  metadata cache with the new tick (pass 1). A page that is in the new index only causes
  no call.
\<close>

theorem reader_diff_two_passes:
  assumes "reader_diff X t f = (None, f')"
    and "sorted_wrt (<) (map hdf5_page_offset (reader_old_entries f))"
    and "sorted_wrt (<) (map hdf5_page_offset (reader_new_entries f))"
  shows "calls f' = calls f
      @ map (\<lambda>page. H5PB_remove_entry (page * pb_page_size f))
          (stale_pages (reader_old_entries f) (reader_new_entries f))
      @ map (\<lambda>page. H5C_evict_or_refresh_all_entries_in_page page t)
          (stale_pages (reader_old_entries f) (reader_new_entries f))"
proof -
  from assms(1) obtain f1 where p0: "reader_diff_pass X 0 t f = (None, f1)"
    and p1: "reader_diff_pass X 1 t f1 = (None, f')"
    by (auto simp: reader_diff_def split: prod.splits option.splits)
  from reader_diff_pass_calls[OF p0 assms(2,3)] obtain w1 where
    f1: "f1 = f\<lparr>world := w1,
            calls := calls f @ map (evict_call 0 t (pb_page_size f))
                                 (stale_pages (reader_old_entries f) (reader_new_entries f))\<rparr>"
    by blast
  then have same: "reader_old_entries f1 = reader_old_entries f"
    "reader_new_entries f1 = reader_new_entries f"
    by (simp_all add: reader_old_entries_def reader_new_entries_def)
  from reader_diff_pass_calls[OF p1] assms(2,3) same obtain w2 where
    "f' = f1\<lparr>world := w2,
            calls := calls f1 @ map (evict_call 1 t (pb_page_size f1))
                                 (stale_pages (reader_old_entries f) (reader_new_entries f))\<rparr>"
    by auto
  with f1 show ?thesis by (simp add: evict_call_def)
qed

theorem reader_diff_two_passes_witness:
  "fst (reader_diff (example_ext sys_ok) 8 example_reader_file) = None
   \<and> calls (snd (reader_diff (example_ext sys_ok) 8 example_reader_file))
     = [H5PB_remove_entry (41 * 4096), H5PB_remove_entry (42 * 4096),
        H5C_evict_or_refresh_all_entries_in_page 41 8,
        H5C_evict_or_refresh_all_entries_in_page 42 8]"
proof -
  have r: "fst (reader_diff (example_ext sys_ok) 8 example_reader_file) = None"
    by (simp add: reader_diff_def reader_diff_pass_def example_reader_file_def example_file_def
        example_entry_def empty_idx_entry_def evict_page_def do_call_def example_ext_def sys_ok_def)
  have s: "sorted_wrt (<) (map hdf5_page_offset (reader_old_entries example_reader_file))"
    "sorted_wrt (<) (map hdf5_page_offset (reader_new_entries example_reader_file))"
    by (simp_all add: reader_old_entries_def reader_new_entries_def example_reader_file_def
        example_file_def example_entry_def)
  have "reader_diff (example_ext sys_ok) 8 example_reader_file
      = (None, snd (reader_diff (example_ext sys_ok) 8 example_reader_file))"
    using r by (metis prod.collapse)
  from reader_diff_two_passes[OF this s] r show ?thesis
    by (simp add: stale_pages_def reader_old_entries_def reader_new_entries_def
        example_reader_file_def example_file_def example_entry_def)
qed

subsection \<open>The update of the metadata file\<close>

lemma update_index_entry_ok:
  assumes "update_index_entry X i (f, idx) = (None, f1, idx1)" and "i < length idx"
  shows "(\<not> pending (idx ! i) \<and> f1 = f \<and> idx1 = idx)
       \<or> (\<exists>a. idx1 = idx[i := published_entry X (fs_page_size f) (idx ! i) a]
            \<and> pending (idx ! i)
            \<and> f1 = f\<lparr>world := world f1, calls := calls f @ entry_calls (idx ! i) a,
                     dl := (if md_file_page_offset (idx ! i) \<noteq> 0 then [superseded (tick_num f) (idx ! i)] else []) @ dl f,
                     dl_len := dl_len f + (if md_file_page_offset (idx ! i) \<noteq> 0 then 1 else 0)\<rparr>)"
proof (cases "entry_ptr (idx ! i)")
  case None
  with assms show ?thesis by (simp add: update_index_entry_def pending_def)
next
  case (Some img)
  show ?thesis
  proof (cases "md_file_page_offset (idx ! i) = 0")
    case True
    with assms Some show ?thesis
      apply (simp add: update_index_entry_def pending_def entry_calls_def published_entry_def
          entry_image_def superseded_def Let_def split: prod.splits option.splits if_splits)
      apply (auto dest!: do_call_eq)
      done
  next
    case False
    with assms Some show ?thesis
      apply (simp add: update_index_entry_def pending_def entry_calls_def published_entry_def
          entry_image_def superseded_def Let_def split: prod.splits option.splits if_splits)
      apply (auto dest!: do_call_eq)
      done
  qed
qed


lemma replay_append:
  "replay s (xs @ ys) w =
     (case replay s xs w of (tr, w1) \<Rightarrow> (case replay s ys w1 of (tr', w2) \<Rightarrow> (tr @ tr', w2)))"
  by (induction xs arbitrary: w) (auto split: prod.splits)

lemma alloc_addrs_append: "alloc_addrs (xs @ ys) = alloc_addrs xs @ alloc_addrs ys"
  by (induction xs rule: alloc_addrs.induct) auto

lemma entry_calls_inj: "entry_calls e a = entry_calls e b \<Longrightarrow> a = b"
  by (simp add: entry_calls_def)

lemma update_index_entry_replay:
  assumes "update_index_entry X i (f, idx) = (None, f1, idx1)" and "pending (idx ! i)"
  shows "\<exists>a tr. calls f1 = calls f @ entry_calls (idx ! i) a
           \<and> replay (ext_sys X) (entry_calls (idx ! i) a) (world f) = (tr, world f1)
           \<and> alloc_addrs tr = [a]"
proof -
  from assms(2) obtain img where img: "entry_ptr (idx ! i) = Some img"
    by (auto simp: pending_def)
  show ?thesis
  proof (cases "md_file_page_offset (idx ! i) = 0")
    case True
    with assms img show ?thesis
      by (auto simp: update_index_entry_def entry_calls_def entry_image_def do_call_def Let_def
          split: prod.splits option.splits if_splits)
  next
    case False
    with assms img show ?thesis
      by (auto simp: update_index_entry_def entry_calls_def entry_image_def do_call_def Let_def
          split: prod.splits option.splits if_splits)
  qed
qed

lemma update_index_entries_ok:
  assumes "update_index_entries X [i..<i + length es] (f, pre @ es @ post) = (None, f', idx')"
    and "length pre = i"
  shows "\<exists>addrs. length addrs = length (filter pending es)
          \<and> idx' = pre @ published X (fs_page_size f) es addrs @ post
          \<and> f' = f\<lparr>world := world f', calls := calls f @ publish_calls es addrs,
                   dl := newly_delayed (tick_num f) es @ dl f,
                   dl_len := dl_len f + of_nat (length (newly_delayed (tick_num f) es))\<rparr>
          \<and> snd (replay (ext_sys X) (publish_calls es addrs) (world f)) = world f'
          \<and> alloc_addrs (fst (replay (ext_sys X) (publish_calls es addrs) (world f))) = addrs"
  using assms
proof (induction es arbitrary: i pre f)
  case Nil
  then show ?case by (simp add: newly_delayed_def)
next
  case (Cons e es)
  have "[i..<i + length (e # es)] = i # [Suc i..<Suc i + length es]"
    by (simp add: upt_rec)
  with Cons.prems(1)
  have "update_index_entries X (i # [Suc i..<Suc i + length es]) (f, pre @ (e # es) @ post) = (None, f', idx')"
    by (simp only:)
  then obtain f1 idx1 where
    s: "update_index_entry X i (f, pre @ (e # es) @ post) = (None, f1, idx1)"
    and r: "update_index_entries X [Suc i..<Suc i + length es] (f1, idx1) = (None, f', idx')"
    by (simp only: update_index_entries.simps split: prod.splits option.splits) auto
  have nth: "(pre @ (e # es) @ post) ! i = e" using Cons.prems(2) by (simp add: nth_append)
  have ilen: "i < length (pre @ (e # es) @ post)" using Cons.prems(2) by simp
  have upd: "\<And>x. (pre @ (e # es) @ post)[i := x] = (pre @ [x]) @ es @ post"
    using Cons.prems(2) by (simp add: list_update_append)
  from update_index_entry_ok[OF s ilen]
  show ?case
  proof
    assume a: "\<not> pending ((pre @ (e # es) @ post) ! i) \<and> f1 = f \<and> idx1 = pre @ (e # es) @ post"
    then have np: "\<not> pending e" and idx1: "idx1 = (pre @ [e]) @ es @ post" and f1: "f1 = f"
      using nth by simp_all
    from Cons.IH[OF r[unfolded idx1 f1]] Cons.prems(2) obtain addrs where
      A: "length addrs = length (filter pending es)"
        "idx' = (pre @ [e]) @ published X (fs_page_size f) es addrs @ post"
        "f' = f\<lparr>world := world f', calls := calls f @ publish_calls es addrs,
                   dl := newly_delayed (tick_num f) es @ dl f,
                   dl_len := dl_len f + of_nat (length (newly_delayed (tick_num f) es))\<rparr>"
        "snd (replay (ext_sys X) (publish_calls es addrs) (world f)) = world f'"
        "alloc_addrs (fst (replay (ext_sys X) (publish_calls es addrs) (world f))) = addrs"
      by auto
    have p: "published X (fs_page_size f) (e # es) addrs = e # published X (fs_page_size f) es addrs"
      using np by (cases addrs) simp_all
    have c: "publish_calls (e # es) addrs = publish_calls es addrs"
      using np A(1) by (cases addrs) (simp_all, cases es, simp_all)
    show ?thesis
      apply (rule exI[of _ addrs])
      using A np p c by (simp add: newly_delayed_def)
  next
    assume "\<exists>a. idx1 = (pre @ (e # es) @ post)[i := published_entry X (fs_page_size f) ((pre @ (e # es) @ post) ! i) a]
            \<and> pending ((pre @ (e # es) @ post) ! i)
            \<and> f1 = f\<lparr>world := world f1, calls := calls f @ entry_calls ((pre @ (e # es) @ post) ! i) a,
                     dl := (if md_file_page_offset ((pre @ (e # es) @ post) ! i) \<noteq> 0 then [superseded (tick_num f) ((pre @ (e # es) @ post) ! i)] else []) @ dl f,
                     dl_len := dl_len f + (if md_file_page_offset ((pre @ (e # es) @ post) ! i) \<noteq> 0 then 1 else 0)\<rparr>"
    then obtain a where
      idx1: "idx1 = (pre @ [published_entry X (fs_page_size f) e a]) @ es @ post"
      and pe: "pending e"
      and f1': "f1 = f\<lparr>world := world f1, calls := calls f @ entry_calls e a,
                     dl := (if md_file_page_offset e \<noteq> 0 then [superseded (tick_num f) e] else []) @ dl f,
                     dl_len := dl_len f + (if md_file_page_offset e \<noteq> 0 then 1 else 0)\<rparr>"
      unfolding nth upd by blast
    define w1 where "w1 = world f1"
    have f1: "f1 = f\<lparr>world := w1, calls := calls f @ entry_calls e a,
                     dl := (if md_file_page_offset e \<noteq> 0 then [superseded (tick_num f) e] else []) @ dl f,
                     dl_len := dl_len f + (if md_file_page_offset e \<noteq> 0 then 1 else 0)\<rparr>"
      unfolding w1_def by (rule f1')
    have l: "length (pre @ [published_entry X (fs_page_size f) e a]) = Suc i" using Cons.prems(2) by simp
    from Cons.IH[OF r[unfolded idx1] l] obtain addrs where
      A: "length addrs = length (filter pending es)"
        "idx' = (pre @ [published_entry X (fs_page_size f) e a]) @ published X (fs_page_size f1) es addrs @ post"
      and f'1: "f' = f1\<lparr>world := world f', calls := calls f1 @ publish_calls es addrs,
                   dl := newly_delayed (tick_num f1) es @ dl f1,
                   dl_len := dl_len f1 + of_nat (length (newly_delayed (tick_num f1) es))\<rparr>"
      and R: "snd (replay (ext_sys X) (publish_calls es addrs) (world f1)) = world f'"
        "alloc_addrs (fst (replay (ext_sys X) (publish_calls es addrs) (world f1))) = addrs"
      by auto
    define w2 where "w2 = world f'"
    have "f' = f1\<lparr>world := w2, calls := calls f1 @ publish_calls es addrs,
                   dl := newly_delayed (tick_num f1) es @ dl f1,
                   dl_len := dl_len f1 + of_nat (length (newly_delayed (tick_num f1) es))\<rparr>"
      unfolding w2_def by (rule f'1)
    then have f'': "f' = f\<lparr>world := w2, calls := calls f @ entry_calls e a @ publish_calls es addrs,
                   dl := newly_delayed (tick_num f) es @ (if md_file_page_offset e \<noteq> 0 then [superseded (tick_num f) e] else []) @ dl f,
                   dl_len := dl_len f + (if md_file_page_offset e \<noteq> 0 then 1 else 0) + of_nat (length (newly_delayed (tick_num f) es))\<rparr>"
      unfolding f1 by simp
    have w2: "world f' = w2" by (simp add: w2_def)
    have ps: "fs_page_size f1 = fs_page_size f" unfolding f1 by simp
    from update_index_entry_replay[OF s] pe nth obtain b tr where
      cb: "calls f1 = calls f @ entry_calls e b"
      and rb: "replay (ext_sys X) (entry_calls e b) (world f) = (tr, world f1)" "alloc_addrs tr = [b]"
      by auto
    have "calls f1 = calls f @ entry_calls e a" by (subst f1) simp
    with cb have "entry_calls e b = entry_calls e a" by simp
    then have "b = a" by (rule entry_calls_inj)
    with rb have ra: "replay (ext_sys X) (entry_calls e a) (world f) = (tr, world f1)"
      "alloc_addrs tr = [a]"
      by simp_all
    have RR: "snd (replay (ext_sys X) (entry_calls e a @ publish_calls es addrs) (world f)) = world f'"
      "alloc_addrs (fst (replay (ext_sys X) (entry_calls e a @ publish_calls es addrs) (world f)))
         = a # addrs"
      using ra R by (auto simp: replay_append alloc_addrs_append split: prod.splits)
    show ?thesis
      apply (rule exI[of _ "a # addrs"])
      using A(1,2) pe ps w2 RR by (simp add: f'' newly_delayed_def)
  qed
qed

lemma unat_ucast_lag: "unat (ucast (l :: 32 word) :: 64 word) = unat l"
  by (simp add: unsigned_ucast_eq take_bit_nat_eq_self unsigned_less[of l, where 'a=nat, THEN less_trans])

lemma release_due_expired:
  assumes "1 \<le> dl_tick_num d"
  shows "release_due tick lag d = expired tick lag d"
proof (cases "tick > ucast lag")
  case True
  then have lt: "unat lag < unat tick" by (simp add: word_less_nat_alt unat_ucast_lag)
  then have "ucast lag \<le> tick" by (simp add: word_le_nat_alt unat_ucast_lag)
  then have "unat (tick - ucast lag) = unat tick - unat lag"
    by (simp add: unat_sub unat_ucast_lag)
  then show ?thesis using True lt
    by (simp add: release_due_def expired_def word_le_nat_alt del: of_nat_unat) linarith
next
  case False
  then have le: "unat tick \<le> unat lag" by (simp add: word_less_nat_alt unat_ucast_lag)
  from assms have "1 \<le> unat (dl_tick_num d)" by (simp add: word_le_nat_alt)
  with le False show ?thesis
    by (simp add: release_due_def expired_def del: of_nat_unat)
qed

lemma release_delayed_ok:
  assumes "release_delayed X ds f = (None, f')" "dl f = rev ds"
  shows "f' = f\<lparr>world := world f',
             calls := calls f @ map (free_call (fs_page_size f)) (takeWhile (release_due (tick_num f) (max_lag f)) ds),
             dl := rev (dropWhile (release_due (tick_num f) (max_lag f)) ds),
             dl_len := dl_len f - of_nat (length (takeWhile (release_due (tick_num f) (max_lag f)) ds))\<rparr>"
  using assms
proof (induction ds arbitrary: f)
  case Nil
  then show ?case by simp
next
  case (Cons d ds)
  show ?case
  proof (cases "release_due (tick_num f) (max_lag f) d")
    case False
    then have "release_delayed X (d # ds) f = (None, f)" by (auto simp: release_due_def)
    with Cons.prems(1) have "f' = f" by simp
    moreover have "f = f\<lparr>world := world f, calls := calls f, dl := dl f, dl_len := dl_len f\<rparr>"
      by simp
    ultimately show ?thesis using False Cons.prems(2) by simp
  next
    case True
    then have T: "tick_num f > ucast (max_lag f) \<and> dl_tick_num d \<le> tick_num f - ucast (max_lag f)"
      by (simp add: release_due_def)
    with Cons.prems(1) obtain f1 where
      c: "fst (do_call (ext_sys X) (free_call (fs_page_size f) d) f) \<noteq> None"
         "f1 = snd (do_call (ext_sys X) (free_call (fs_page_size f) d) f)"
      and r: "release_delayed X ds (f1\<lparr>dl := butlast (dl f1), dl_len := dl_len f1 - 1\<rparr>) = (None, f')"
      by (auto simp: free_call_def split: prod.splits option.splits)
    define w1 where "w1 = world f1"
    have f1: "f1 = f\<lparr>world := w1, calls := calls f @ [free_call (fs_page_size f) d]\<rparr>"
      using c(2) do_call_eq[OF surjective_pairing, of "ext_sys X" "free_call (fs_page_size f) d" f]
      by (auto simp: w1_def)
    define f2 where "f2 = f1\<lparr>dl := butlast (dl f1), dl_len := dl_len f1 - 1\<rparr>"
    have d2: "dl f2 = rev ds" using Cons.prems(2) by (simp add: f2_def f1)
    from Cons.IH[OF r[folded f2_def] d2]
    have "f' = f2\<lparr>world := world f',
             calls := calls f2 @ map (free_call (fs_page_size f2)) (takeWhile (release_due (tick_num f2) (max_lag f2)) ds),
             dl := rev (dropWhile (release_due (tick_num f2) (max_lag f2)) ds),
             dl_len := dl_len f2 - of_nat (length (takeWhile (release_due (tick_num f2) (max_lag f2)) ds))\<rparr>" .
    then show ?thesis using True unfolding f2_def f1
      by (simp add: algebra_simps)
  qed
qed

lemma hdr_frame:
  "H5F__vfd_swmr_construct_write_md_hdr X f n = (r, f') \<Longrightarrow>
     f' = f\<lparr>world := world f', calls := calls f'\<rparr>"
  by (auto simp: H5F__vfd_swmr_construct_write_md_hdr_def Let_def
      split: prod.splits option.splits if_splits dest!: do_call_eq)

lemma idx_frame:
  "H5F__vfd_swmr_construct_write_md_idx X f n index = (r, f') \<Longrightarrow>
     f' = f\<lparr>world := world f', calls := calls f'\<rparr>"
  by (auto simp: H5F__vfd_swmr_construct_write_md_idx_def Let_def
      split: prod.splits option.splits if_splits dest!: do_call_eq)

lemma md_idx_image_cong:
  "tick_num f1 = tick_num f \<Longrightarrow> md_idx_image X f1 n index = md_idx_image X f n index"
  by (simp add: md_idx_image_def)

lemma md_hdr_image_cong:
  "tick_num f1 = tick_num f \<Longrightarrow> fs_page_size f1 = fs_page_size f \<Longrightarrow>
     md_hdr_image X f1 n = md_hdr_image X f n"
  by (simp add: md_hdr_image_def)

lemma length_published: "length (published X ps es addrs) = length es"
  by (induction X ps es addrs rule: published.induct) simp_all

lemma update_md_file_ok:
  assumes ok: "H5F_update_vfd_swmr_metadata_file X f n index = (None, f', index')"
    and m: "4 \<le> length (H5FD_MD_HEADER_MAGIC X)" "4 \<le> length (H5FD_MD_INDEX_MAGIC X)"
  defines "arr \<equiv> case index of None \<Rightarrow> [] | Some a \<Rightarrow> a"
  defines "S \<equiv> sort_key hdf5_page_offset (take (unat n) arr)"
  defines "before \<equiv> newly_delayed (tick_num f) S @ dl f"
  defines "due \<equiv> release_due (tick_num f) (max_lag f)"
  shows "\<exists>addrs. length addrs = length (filter pending S)
      \<and> alloc_addrs (fst (replay (ext_sys X) (publish_calls S addrs) (world f))) = addrs
      \<and> index' = map_option (\<lambda>_. published X (fs_page_size f) S addrs @ drop (unat n) arr) index
      \<and> f' = f\<lparr>world := world f',
               calls := calls f @ publish_calls S addrs
                 @ [HDmalloc (ucast (H5FD_MD_INDEX_SIZE n)), HDlseek 36,
                    HDwrite (md_idx_image X f n (published X (fs_page_size f) S addrs)),
                    HDlseek 0, HDwrite (md_hdr_image X f n)]
                 @ map (free_call (fs_page_size f)) (takeWhile due (rev before)),
               dl := rev (dropWhile due (rev before)),
               dl_len := dl_len f + of_nat (length (newly_delayed (tick_num f) S))
                           - of_nat (length (takeWhile due (rev before)))\<rparr>"
proof -
  from ok have len: "unat n \<le> length arr"
    by (auto simp: H5F_update_vfd_swmr_metadata_file_def Let_def arr_def split: if_splits)
  have lS: "length S = unat n" using len by (simp add: S_def)
  from ok len obtain f1 index1 f2 f3 where
    loop: "update_index_entries X [0..<unat n] (f, S @ drop (unat n) arr) = (None, f1, index1)"
    and iw: "H5F__vfd_swmr_construct_write_md_idx X f1 n (map_option (\<lambda>_. index1) index) = (None, f2)"
    and hw: "H5F__vfd_swmr_construct_write_md_hdr X f2 n = (None, f3)"
    and rel: "release_delayed X (rev (dl f3)) f3 = (None, f')"
    and i': "index' = map_option (\<lambda>_. index1) index"
    by (auto simp: H5F_update_vfd_swmr_metadata_file_def Let_def arr_def S_def
        split: if_splits prod.splits option.splits)
  have "update_index_entries X [0..<0 + length S] (f, [] @ S @ drop (unat n) arr) = (None, f1, index1)"
    using loop lS by simp
  from update_index_entries_ok[OF this] obtain addrs where
    A: "length addrs = length (filter pending S)"
      "index1 = published X (fs_page_size f) S addrs @ drop (unat n) arr"
    and f1': "f1 = f\<lparr>world := world f1, calls := calls f @ publish_calls S addrs,
                   dl := newly_delayed (tick_num f) S @ dl f,
                   dl_len := dl_len f + of_nat (length (newly_delayed (tick_num f) S))\<rparr>"
    and AA: "alloc_addrs (fst (replay (ext_sys X) (publish_calls S addrs) (world f))) = addrs"
    by auto
  define w1 where "w1 = world f1"
  have f1: "f1 = f\<lparr>world := w1, calls := calls f @ publish_calls S addrs,
                   dl := before,
                   dl_len := dl_len f + of_nat (length (newly_delayed (tick_num f) S))\<rparr>"
    unfolding w1_def before_def by (rule f1')
  have arr1: "(case map_option (\<lambda>_. index1) index of None \<Rightarrow> [] | Some a \<Rightarrow> a) = index1"
    using A(2) lS len by (cases index) (simp_all add: arr_def S_def)
  have img1: "md_idx_image X f1 n index1 = md_idx_image X f n (published X (fs_page_size f) S addrs)"
    unfolding f1 A(2) using lS by (simp add: md_idx_image_def length_published)
  define w2 where "w2 = world f2"
  have f2: "f2 = f1\<lparr>world := w2, calls := calls f1 @ [HDmalloc (ucast (H5FD_MD_INDEX_SIZE n)), HDlseek 36,
                    HDwrite (md_idx_image X f n (published X (fs_page_size f) S addrs))]\<rparr>"
    using idx_frame[OF iw] idx_write_calls[OF iw m(2)] arr1 img1 by (simp add: w2_def)
  have img2: "md_hdr_image X f2 n = md_hdr_image X f n"
    unfolding f2 f1 by (simp add: md_hdr_image_def)
  from idx_write_bounds(2)[OF iw] have nb: "20 + 16 * unat n < 2 ^ 32" .
  define w3 where "w3 = world f3"
  have f3: "f3 = f2\<lparr>world := w3, calls := calls f2 @ [HDlseek 0, HDwrite (md_hdr_image X f n)]\<rparr>"
    using hdr_frame[OF hw] hdr_write_calls[OF hw m(1) nb] img2 by (simp add: w3_def)
  have d3: "dl f3 = rev (rev before)" unfolding f3 f2 f1 by simp
  have k3: "tick_num f3 = tick_num f" "max_lag f3 = max_lag f" "fs_page_size f3 = fs_page_size f"
    unfolding f3 f2 f1 by simp_all
  have rel': "release_delayed X (rev before) f3 = (None, f')"
    using rel d3 by simp
  from release_delayed_ok[OF rel' d3]
  have "f' = f3\<lparr>world := world f',
             calls := calls f3 @ map (free_call (fs_page_size f)) (takeWhile due (rev before)),
             dl := rev (dropWhile due (rev before)),
             dl_len := dl_len f3 - of_nat (length (takeWhile due (rev before)))\<rparr>"
    unfolding k3 due_def .
  then have "f' = f\<lparr>world := world f',
               calls := calls f @ publish_calls S addrs
                 @ [HDmalloc (ucast (H5FD_MD_INDEX_SIZE n)), HDlseek 36,
                    HDwrite (md_idx_image X f n (published X (fs_page_size f) S addrs)),
                    HDlseek 0, HDwrite (md_hdr_image X f n)]
                 @ map (free_call (fs_page_size f)) (takeWhile due (rev before)),
               dl := rev (dropWhile due (rev before)),
               dl_len := dl_len f + of_nat (length (newly_delayed (tick_num f) S))
                           - of_nat (length (takeWhile due (rev before)))\<rparr>"
    unfolding f3 f2 f1 by simp
  with A AA i' show ?thesis by blast
qed

lemma published_not_pending:
  "length addrs = length (filter pending es) \<Longrightarrow>
     list_all (\<lambda>e. entry_ptr e = None) (published X ps es addrs)"
proof (induction X ps es addrs rule: published.induct)
  case (1 X ps addrs)
  then show ?case by simp
next
  case (2 X ps e es)
  then show ?case by (simp add: pending_def split: if_splits)
next
  case (3 X ps e es a addrs)
  then show ?case by (simp add: pending_def published_entry_def split: if_splits)
qed

text \<open>
  C1. A successful update of the metadata file sorts the first \<open>num_entries\<close> entries of
  the index by page offset and then, for each of them that is pending, in this order:
  allocates a delayed-list entry when the index entry has a place in the metadata file
  already (the entry prepended holds the page offset, the old place, the length and the
  current tick), allocates \<open>length\<close> bytes in the metadata file, seeks to the address
  allocated and writes the image there; the entry is left with the allocated address
  divided by the page size as its place, with the checksum of the image, and with a null
  \<open>entry_ptr\<close>. The addresses are the ones that the calls of \<^verbatim>\<open>H5MV_alloc\<close>
  return when the calls are made in this order from the world of the file. After the calls
  for all the entries come the write of the index frame at
  offset 36, then the write of the header frame at offset 0, then the releases of the
  delayed list, which take entries from its tail.
\<close>

theorem metadata_file_publication_order:
  assumes "H5F_update_vfd_swmr_metadata_file X f n index = (None, f', index')"
    and "4 \<le> length (H5FD_MD_HEADER_MAGIC X)" and "4 \<le> length (H5FD_MD_INDEX_MAGIC X)"
  shows "\<exists>addrs released.
      length addrs
        = length (filter pending (sort_key hdf5_page_offset
            (take (unat n) (case index of None \<Rightarrow> [] | Some a \<Rightarrow> a))))
    \<and> alloc_addrs (fst (replay (ext_sys X)
          (publish_calls (sort_key hdf5_page_offset
            (take (unat n) (case index of None \<Rightarrow> [] | Some a \<Rightarrow> a))) addrs) (world f))) = addrs
    \<and> calls f' = calls f
        @ publish_calls (sort_key hdf5_page_offset
            (take (unat n) (case index of None \<Rightarrow> [] | Some a \<Rightarrow> a))) addrs
        @ [HDmalloc (ucast (H5FD_MD_INDEX_SIZE n)), HDlseek 36,
           HDwrite (md_idx_image X f n (case index' of None \<Rightarrow> [] | Some a \<Rightarrow> a)),
           HDlseek 0, HDwrite (md_hdr_image X f n)]
        @ map (free_call (fs_page_size f)) released
    \<and> index' = map_option (\<lambda>_. published X (fs_page_size f) (sort_key hdf5_page_offset
            (take (unat n) (case index of None \<Rightarrow> [] | Some a \<Rightarrow> a))) addrs
          @ drop (unat n) (case index of None \<Rightarrow> [] | Some a \<Rightarrow> a)) index
    \<and> list_all (\<lambda>e. entry_ptr e = None) (take (unat n) (case index' of None \<Rightarrow> [] | Some a \<Rightarrow> a))
    \<and> newly_delayed (tick_num f) (sort_key hdf5_page_offset
            (take (unat n) (case index of None \<Rightarrow> [] | Some a \<Rightarrow> a))) @ dl f
        = dl f' @ rev released"
proof -
  define arr where "arr = (case index of None \<Rightarrow> [] | Some a \<Rightarrow> a)"
  define S where "S = sort_key hdf5_page_offset (take (unat n) arr)"
  define before where "before = newly_delayed (tick_num f) S @ dl f"
  define due where "due = release_due (tick_num f) (max_lag f)"
  from assms(1) have len: "unat n \<le> length arr"
    by (auto simp: H5F_update_vfd_swmr_metadata_file_def Let_def arr_def split: if_splits)
  have lS: "length S = unat n" using len by (simp add: S_def)
  from update_md_file_ok[OF assms, folded arr_def, folded S_def, folded before_def, folded due_def]
  obtain addrs where
    A: "length addrs = length (filter pending S)"
      "index' = map_option (\<lambda>_. published X (fs_page_size f) S addrs @ drop (unat n) arr) index"
    and AA: "alloc_addrs (fst (replay (ext_sys X) (publish_calls S addrs) (world f))) = addrs"
    and f': "f' = f\<lparr>world := world f',
               calls := calls f @ publish_calls S addrs
                 @ [HDmalloc (ucast (H5FD_MD_INDEX_SIZE n)), HDlseek 36,
                    HDwrite (md_idx_image X f n (published X (fs_page_size f) S addrs)),
                    HDlseek 0, HDwrite (md_hdr_image X f n)]
                 @ map (free_call (fs_page_size f)) (takeWhile due (rev before)),
               dl := rev (dropWhile due (rev before)),
               dl_len := dl_len f + of_nat (length (newly_delayed (tick_num f) S))
                           - of_nat (length (takeWhile due (rev before)))\<rparr>"
    by blast
  have arr': "(case index' of None \<Rightarrow> [] | Some a \<Rightarrow> a) = published X (fs_page_size f) S addrs @ drop (unat n) arr"
    using A(2) len lS by (cases index) (simp_all add: arr_def S_def)
  have tk: "take (unat n) (case index' of None \<Rightarrow> [] | Some a \<Rightarrow> a) = published X (fs_page_size f) S addrs"
    unfolding arr' using lS by (simp add: length_published)
  have img: "md_idx_image X f n (case index' of None \<Rightarrow> [] | Some a \<Rightarrow> a)
      = md_idx_image X f n (published X (fs_page_size f) S addrs)"
    using tk lS by (simp add: md_idx_image_def length_published)
  have c: "calls f' = calls f @ publish_calls S addrs
                 @ [HDmalloc (ucast (H5FD_MD_INDEX_SIZE n)), HDlseek 36,
                    HDwrite (md_idx_image X f n (case index' of None \<Rightarrow> [] | Some a \<Rightarrow> a)),
                    HDlseek 0, HDwrite (md_hdr_image X f n)]
                 @ map (free_call (fs_page_size f)) (takeWhile due (rev before))"
    unfolding img by (subst f') simp
  have d: "dl f' = rev (dropWhile due (rev before))" by (subst f') simp
  have "rev (rev before) = rev (takeWhile due (rev before) @ dropWhile due (rev before))"
    by (simp only: takeWhile_dropWhile_id)
  then have b: "before = dl f' @ rev (takeWhile due (rev before))"
    unfolding d by (simp only: rev_rev_ident rev_append)
  show ?thesis
    apply (rule exI[of _ addrs], rule exI[of _ "takeWhile due (rev before)"])
    using A AA c b published_not_pending[OF A(1), of X "fs_page_size f"] tk
    unfolding arr_def[symmetric] S_def[symmetric] before_def[symmetric]
    by simp
qed

lemmas publish_example_simps =
  H5F_update_vfd_swmr_metadata_file_def example_publish_file_def example_publish_index_def
  example_file_def example_entry_def empty_idx_entry_def example_ext_def sys_bump_def sys_ok_def
  update_index_entry_def do_call_def Let_def H5F__vfd_swmr_construct_write_md_idx_def
  H5F__vfd_swmr_construct_write_md_hdr_def md_idx_image_def md_hdr_image_def idx_entry_image_def
  H5FD_MD_INDEX_SIZE_def H5FD_MD_HEADER_SIZE_def H5FD_MD_INDEX_ENTRY_SIZE_def H5_SIZEOF_MAGIC_def
  H5FD_MD_HEADER_OFF_def UINT32ENCODE_def UINT64ENCODE_def upt_rec

theorem metadata_file_publication_order_witness:
  "fst (H5F_update_vfd_swmr_metadata_file (example_ext sys_bump) example_publish_file 3
          (Some example_publish_index)) = None
   \<and> take 7 (calls (fst (snd (H5F_update_vfd_swmr_metadata_file (example_ext sys_bump)
          example_publish_file 3 (Some example_publish_index)))))
       = [H5FL_CALLOC_dl_entry, H5MV_alloc 4, HDlseek 8192, HDwrite [5, 6, 7, 8],
          H5MV_alloc 4, HDlseek 8196, HDwrite [1, 2, 3, 4]]
   \<and> map md_file_page_offset (the (snd (snd (H5F_update_vfd_swmr_metadata_file
          (example_ext sys_bump) example_publish_file 3 (Some example_publish_index)))))
       = [2048, 3, 2049]"
proof -
  let ?R = "H5F_update_vfd_swmr_metadata_file (example_ext sys_bump) example_publish_file 3
          (Some example_publish_index)"
  let ?S = "[example_entry 5 7 (Some [5, 6, 7, 8]), example_entry 6 3 None,
             example_entry 9 0 (Some [1, 2, 3, 4])]"
  have m: "4 \<le> length (H5FD_MD_HEADER_MAGIC (example_ext sys_bump))"
    "4 \<le> length (H5FD_MD_INDEX_MAGIC (example_ext sys_bump))"
    by (simp_all add: example_ext_def)
  have r: "fst ?R = None"
    by (simp add: publish_example_simps)
  have ok: "?R = (None, fst (snd ?R), snd (snd ?R))"
    using r by (metis prod.collapse)
  have l: "fs_page_size example_publish_file = 4" "calls example_publish_file = []"
    "world example_publish_file = 8192"
    by (simp_all add: example_publish_file_def example_file_def)
  have S: "sort_key hdf5_page_offset (take (unat (3 :: uint32_t)) example_publish_index) = ?S"
    by (simp add: example_publish_index_def example_entry_def empty_idx_entry_def)
  have p: "filter pending ?S
      = [example_entry 5 7 (Some [5, 6, 7, 8]), example_entry 9 0 (Some [1, 2, 3, 4])]"
    by (simp add: pending_def example_entry_def)
  from metadata_file_publication_order[OF ok m] obtain addrs released where
    L: "length addrs = length (filter pending ?S)"
    and A: "alloc_addrs (fst (replay (ext_sys (example_ext sys_bump)) (publish_calls ?S addrs)
              (world example_publish_file))) = addrs"
    and C: "calls (fst (snd ?R)) = calls example_publish_file @ publish_calls ?S addrs
        @ [HDmalloc (ucast (H5FD_MD_INDEX_SIZE 3)), HDlseek 36,
           HDwrite (md_idx_image (example_ext sys_bump) example_publish_file 3
             (case snd (snd ?R) of None \<Rightarrow> [] | Some a \<Rightarrow> a)),
           HDlseek 0, HDwrite (md_hdr_image (example_ext sys_bump) example_publish_file 3)]
        @ map (free_call (fs_page_size example_publish_file)) released"
    and I: "snd (snd ?R) = map_option (\<lambda>_. published (example_ext sys_bump)
              (fs_page_size example_publish_file) ?S addrs
              @ drop (unat (3 :: uint32_t)) example_publish_index) (Some example_publish_index)"
    unfolding option.case S by blast
  from L obtain a b where ab: "addrs = [a, b]"
    unfolding p by (auto simp: length_Suc_conv numeral_2_eq_2)
  have pc: "publish_calls ?S [a, b]
      = [H5FL_CALLOC_dl_entry, H5MV_alloc 4, HDlseek a, HDwrite [5, 6, 7, 8],
         H5MV_alloc 4, HDlseek b, HDwrite [1, 2, 3, 4]]"
    by (simp add: pending_def entry_calls_def entry_image_def example_entry_def)
  from A[unfolded ab pc l] have v: "a = 8192" "b = 8196"
    by (simp_all add: example_ext_def sys_bump_def sys_ok_def)
  from C[unfolded ab pc l] have c: "take 7 (calls (fst (snd ?R)))
       = [H5FL_CALLOC_dl_entry, H5MV_alloc 4, HDlseek 8192, HDwrite [5, 6, 7, 8],
          H5MV_alloc 4, HDlseek 8196, HDwrite [1, 2, 3, 4]]"
    unfolding v by simp
  from I[unfolded ab l] have "map md_file_page_offset (the (snd (snd ?R))) = [2048, 3, 2049]"
    unfolding v
    by (simp add: pending_def published_entry_def example_entry_def example_publish_index_def)
  with r c show ?thesis by (intro conjI)
qed

subsection \<open>Close of the writer\<close>













subsection \<open>The release of the delayed list\<close>

lemma sorted_while_filter:
  assumes "sorted (map k xs)" and "\<And>x y. k x \<le> k y \<Longrightarrow> P y \<Longrightarrow> P x"
  shows "dropWhile P xs = filter (\<lambda>x. \<not> P x) xs \<and> takeWhile P xs = filter P xs"
  using assms(1)
proof (induction xs)
  case Nil
  then show ?case by simp
next
  case (Cons x xs)
  show ?case
  proof (cases "P x")
    case True
    with Cons show ?thesis by simp
  next
    case False
    have "\<forall>y\<in>set xs. \<not> P y"
    proof
      fix y assume "y \<in> set xs"
      with Cons.prems have "k x \<le> k y" by auto
      with assms(2) False show "\<not> P y" by blast
    qed
    then have "filter (\<lambda>x. \<not> P x) xs = xs" "filter P xs = []" by (simp_all add: filter_empty_conv)
    with False show ?thesis by simp
  qed
qed

lemma expired_mono:
  "dl_tick_num x \<le> dl_tick_num y \<Longrightarrow> expired tick lag y \<Longrightarrow> expired tick lag x"
  by (simp add: expired_def word_le_nat_alt del: of_nat_unat)

lemma not_expired_bound:
  assumes "\<not> expired tick lag d" "dl_tick_num d \<le> tick"
  shows "unat tick - unat (dl_tick_num d) < unat lag"
proof -
  from assms(2) have "unat (dl_tick_num d) \<le> unat tick" by (simp add: word_le_nat_alt)
  moreover from assms(1) have "int (unat tick) - int (unat lag) < int (unat (dl_tick_num d))"
    by (simp add: expired_def del: of_nat_unat)
  ultimately show ?thesis by linarith
qed

lemma sorted_const: "\<forall>x\<in>set xs. k x = c \<Longrightarrow> sorted (map k xs)"
  by (induction xs) auto

lemma dl_wf_before:
  assumes "dl_wf tick ds" "1 \<le> tick"
  shows "dl_wf tick (newly_delayed tick es @ ds)"
proof -
  have t: "\<forall>d\<in>set (newly_delayed tick es). dl_tick_num d = tick"
    by (auto simp: newly_delayed_def superseded_def)
  then have "\<forall>d\<in>set (rev (newly_delayed tick es)). dl_tick_num d = tick" by simp
  then have "sorted (map dl_tick_num (rev (newly_delayed tick es)))" by (rule sorted_const)
  then have "sorted (map dl_tick_num (rev ds) @ map dl_tick_num (rev (newly_delayed tick es)))"
    using assms(1) t
    by (auto simp: dl_wf_def sorted_append list_all_iff)
  moreover have "list_all (\<lambda>d. 1 \<le> dl_tick_num d \<and> dl_tick_num d \<le> tick) (newly_delayed tick es @ ds)"
    using assms t by (auto simp: dl_wf_def list_all_iff)
  ultimately show ?thesis by (simp add: dl_wf_def)
qed

lemma dl_wf_filter:
  assumes "dl_wf tick ds"
  shows "dl_wf tick (filter P ds)"
proof -
  from assms have "sorted (map dl_tick_num (rev ds))" by (simp add: dl_wf_def)
  then have "sorted (map dl_tick_num (filter P (rev ds)))" by (rule sorted_filter)
  then have "sorted (map dl_tick_num (rev (filter P ds)))" by (simp only: rev_filter)
  with assms show ?thesis by (auto simp: dl_wf_def list_all_iff)
qed

text \<open>
  C2. On a successful update of the metadata file whose delayed list is well formed, the
  entries released are exactly the expired ones, those with
  \<open>tick_num \<le> current_tick - max_lag\<close>: the list left is the list after the
  insertions of this update without its expired entries, the releases are the last calls
  made, one \<^verbatim>\<open>H5MV_free\<close> for each expired entry from the tail, and every entry
  kept was superseded fewer than \<open>max_lag\<close> ticks ago. The list left is well formed again.
\<close>

theorem delayed_list_release:
  assumes "H5F_update_vfd_swmr_metadata_file X f n index = (None, f', index')"
    and "4 \<le> length (H5FD_MD_HEADER_MAGIC X)" and "4 \<le> length (H5FD_MD_INDEX_MAGIC X)"
    and "dl_wf (tick_num f) (dl f)" and "1 \<le> tick_num f"
  shows "dl f' = rev (dropWhile (expired (tick_num f) (max_lag f))
                  (rev (newly_delayed (tick_num f) (sort_key hdf5_page_offset
                     (take (unat n) (case index of None \<Rightarrow> [] | Some a \<Rightarrow> a))) @ dl f)))
    \<and> dl f' = filter (\<lambda>d. \<not> expired (tick_num f) (max_lag f) d)
                  (newly_delayed (tick_num f) (sort_key hdf5_page_offset
                     (take (unat n) (case index of None \<Rightarrow> [] | Some a \<Rightarrow> a))) @ dl f)
    \<and> (\<exists>cs. calls f' = calls f @ cs
          @ map (free_call (fs_page_size f))
              (takeWhile (expired (tick_num f) (max_lag f))
                 (rev (newly_delayed (tick_num f) (sort_key hdf5_page_offset
                     (take (unat n) (case index of None \<Rightarrow> [] | Some a \<Rightarrow> a))) @ dl f))))
    \<and> list_all (\<lambda>d. unat (tick_num f') - unat (dl_tick_num d) < unat (max_lag f')) (dl f')
    \<and> dl_wf (tick_num f') (dl f')"
proof -
  define arr where "arr = (case index of None \<Rightarrow> [] | Some a \<Rightarrow> a)"
  define S where "S = sort_key hdf5_page_offset (take (unat n) arr)"
  define before where "before = newly_delayed (tick_num f) S @ dl f"
  define due where "due = release_due (tick_num f) (max_lag f)"
  define ex where "ex = expired (tick_num f) (max_lag f)"
  from update_md_file_ok[OF assms(1-3), folded arr_def, folded S_def, folded before_def, folded due_def]
  obtain addrs where
    f': "f' = f\<lparr>world := world f',
               calls := calls f @ publish_calls S addrs
                 @ [HDmalloc (ucast (H5FD_MD_INDEX_SIZE n)), HDlseek 36,
                    HDwrite (md_idx_image X f n (published X (fs_page_size f) S addrs)),
                    HDlseek 0, HDwrite (md_hdr_image X f n)]
                 @ map (free_call (fs_page_size f)) (takeWhile due (rev before)),
               dl := rev (dropWhile due (rev before)),
               dl_len := dl_len f + of_nat (length (newly_delayed (tick_num f) S))
                           - of_nat (length (takeWhile due (rev before)))\<rparr>"
    by blast
  define cs where "cs = publish_calls S addrs
                 @ [HDmalloc (ucast (H5FD_MD_INDEX_SIZE n)), HDlseek 36,
                    HDwrite (md_idx_image X f n (published X (fs_page_size f) S addrs)),
                    HDlseek 0, HDwrite (md_hdr_image X f n)]"
  have wfb: "dl_wf (tick_num f) before"
    unfolding before_def using assms(4,5) by (rule dl_wf_before)
  then have ge1: "\<And>d. d \<in> set (rev before) \<Longrightarrow> 1 \<le> dl_tick_num d"
    and le: "\<And>d. d \<in> set before \<Longrightarrow> dl_tick_num d \<le> tick_num f"
    and srt: "sorted (map dl_tick_num (rev before))"
    by (auto simp: dl_wf_def list_all_iff)
  have dw: "dropWhile due (rev before) = dropWhile ex (rev before)"
    unfolding due_def ex_def
    by (rule dropWhile_cong[OF refl]) (simp add: release_due_expired ge1)
  have tw: "takeWhile due (rev before) = takeWhile ex (rev before)"
    unfolding due_def ex_def
    by (rule takeWhile_cong[OF refl]) (simp add: release_due_expired ge1)
  have fl: "dropWhile ex (rev before) = filter (\<lambda>d. \<not> ex d) (rev before)"
    using sorted_while_filter[OF srt, of ex] expired_mono unfolding ex_def by blast
  have d: "dl f' = rev (dropWhile ex (rev before))"
    unfolding dw[symmetric] by (subst f') simp
  have d2: "dl f' = filter (\<lambda>d. \<not> ex d) before"
    unfolding d fl by (simp add: rev_filter)
  have c: "calls f' = calls f @ cs @ map (free_call (fs_page_size f)) (takeWhile ex (rev before))"
    unfolding tw[symmetric] cs_def by (subst f') simp
  have k: "tick_num f' = tick_num f" "max_lag f' = max_lag f"
    by (subst f', simp)+
  have bnd: "list_all (\<lambda>d. unat (tick_num f') - unat (dl_tick_num d) < unat (max_lag f')) (dl f')"
    unfolding k d2 list_all_iff using le not_expired_bound unfolding ex_def by auto
  have wf': "dl_wf (tick_num f') (dl f')"
    unfolding k d2 using wfb by (rule dl_wf_filter)
  show ?thesis
    using d d2 c bnd wf'
    unfolding ex_def before_def S_def arr_def by blast
qed

lemmas delayed_example_simps =
  H5F_update_vfd_swmr_metadata_file_def example_delayed_file_def example_file_def
  example_ext_def sys_ok_def do_call_def Let_def H5F__vfd_swmr_construct_write_md_idx_def
  H5F__vfd_swmr_construct_write_md_hdr_def md_idx_image_def md_hdr_image_def
  H5FD_MD_INDEX_SIZE_def H5FD_MD_HEADER_SIZE_def H5FD_MD_INDEX_ENTRY_SIZE_def H5_SIZEOF_MAGIC_def
  H5FD_MD_HEADER_OFF_def UINT32ENCODE_def UINT64ENCODE_def

theorem delayed_list_release_witness:
  "fst (H5F_update_vfd_swmr_metadata_file (example_ext sys_ok) (example_delayed_file 3) 0 None) = None
   \<and> dl (fst (snd (H5F_update_vfd_swmr_metadata_file (example_ext sys_ok) (example_delayed_file 3) 0 None)))
       = dl (example_delayed_file 3)
   \<and> fst (H5F_update_vfd_swmr_metadata_file (example_ext sys_ok) (example_delayed_file 4) 0 None) = None
   \<and> dl (fst (snd (H5F_update_vfd_swmr_metadata_file (example_ext sys_ok) (example_delayed_file 4) 0 None)))
       = dl (example_delayed_file 4)
   \<and> fst (H5F_update_vfd_swmr_metadata_file (example_ext sys_ok) (example_delayed_file 5) 0 None) = None
   \<and> dl (fst (snd (H5F_update_vfd_swmr_metadata_file (example_ext sys_ok) (example_delayed_file 5) 0 None)))
       = []
   \<and> last (calls (fst (snd (H5F_update_vfd_swmr_metadata_file (example_ext sys_ok) (example_delayed_file 5) 0 None))))
       = H5MV_free (7 * 4096) 4096"
proof -
  let ?R = "\<lambda>t. H5F_update_vfd_swmr_metadata_file (example_ext sys_ok) (example_delayed_file t) 0 None"
  have m: "4 \<le> length (H5FD_MD_HEADER_MAGIC (example_ext sys_ok :: unit ext))"
    "4 \<le> length (H5FD_MD_INDEX_MAGIC (example_ext sys_ok :: unit ext))"
    by (simp_all add: example_ext_def)
  have w: "dl_wf (tick_num (example_delayed_file 3)) (dl (example_delayed_file 3))"
    "dl_wf (tick_num (example_delayed_file 4)) (dl (example_delayed_file 4))"
    "dl_wf (tick_num (example_delayed_file 5)) (dl (example_delayed_file 5))"
    "1 \<le> tick_num (example_delayed_file 3)" "1 \<le> tick_num (example_delayed_file 4)"
    "1 \<le> tick_num (example_delayed_file 5)"
    by (simp_all add: dl_wf_def example_delayed_file_def)
  have r: "fst (?R 3) = None" "fst (?R 4) = None" "fst (?R 5) = None"
    by (simp_all add: delayed_example_simps)
  have ok: "?R 3 = (None, fst (snd (?R 3)), snd (snd (?R 3)))"
    "?R 4 = (None, fst (snd (?R 4)), snd (snd (?R 4)))"
    "?R 5 = (None, fst (snd (?R 5)), snd (snd (?R 5)))"
    using r by (metis prod.collapse)+
  have e: "dl (fst (snd (?R 3))) = dl (example_delayed_file 3)"
    "dl (fst (snd (?R 4))) = dl (example_delayed_file 4)"
    "dl (fst (snd (?R 5))) = []"
    "last (calls (fst (snd (?R 5)))) = H5MV_free (7 * 4096) 4096"
    using delayed_list_release[OF ok(1) m w(1) w(4)] delayed_list_release[OF ok(2) m w(2) w(5)]
      delayed_list_release[OF ok(3) m w(3) w(6)]
    by (auto simp: newly_delayed_def expired_def free_call_def example_delayed_file_def
        example_file_def)
  from r e show ?thesis by simp
qed

subsection \<open>The capacity of the index\<close>

lemma idx_position_None:
  "(idx_position es page = None) = (page \<notin> set (map hdf5_page_offset es))"
  by (induction es) auto

lemma merge_added_bound:
  "merge_tick_list ts tick used len idx added = Inr (idx1, a) \<Longrightarrow> used + added \<le> len \<Longrightarrow>
     used + a \<le> len \<and> length idx1 = length idx"
proof (induction ts tick used len idx added rule: merge_tick_list.induct)
  case (1 tick used len idx added)
  then show ?case by simp
next
  case (2 page n img rest tick used len idx added)
  then show ?case
    by (auto split: option.splits if_splits)
qed

lemma merge_new_pages:
  assumes "distinct (map fst ts)"
    and "\<forall>p\<in>set (map fst ts). p \<notin> set (map hdf5_page_offset (take (used + added) idx))"
    and "len \<le> length idx" and "used + added \<le> len"
  shows "if used + added + length ts \<le> len
         then \<exists>idx1. merge_tick_list ts tick used len idx added = Inr (idx1, added + length ts)
         else merge_tick_list ts tick used len idx added = Inl ShadowFull"
  using assms
proof (induction ts arbitrary: idx added)
  case Nil
  then show ?case by simp
next
  case (Cons x rest)
  obtain page n img where x: "x = (page, n, img)" by (cases x) auto
  let ?m = "used + added"
  from Cons.prems(2) have none: "idx_position (take ?m idx) page = None"
    by (simp add: idx_position_None x)
  show ?case
  proof (cases "?m \<ge> len")
    case True
    then show ?thesis using none by (simp add: x)
  next
    case False
    let ?e = "empty_idx_entry\<lparr>hdf5_page_offset := page, length_bytes := n,
                        entry_ptr := Some img, tick_of_last_change := tick\<rparr>"
    let ?idx = "idx[?m := ?e]"
    from False Cons.prems(3) have lt: "?m < length idx" by simp
    then have tk: "take (used + Suc added) ?idx = take ?m idx @ [?e]"
      by (simp add: take_Suc_conv_app_nth)
    have d: "distinct (map fst rest)" using Cons.prems(1) by simp
    have fr: "\<forall>p\<in>set (map fst rest). p \<notin> set (map hdf5_page_offset (take (used + Suc added) ?idx))"
      unfolding tk using Cons.prems(1,2) by (auto simp: x)
    have l: "len \<le> length ?idx" using Cons.prems(3) by simp
    have b: "used + Suc added \<le> len" using False by simp
    from Cons.IH[OF d fr l b] False none lt show ?thesis
      by (auto simp: x)
  qed
qed


lemma update_index_entry_keeps:
  "update_index_entry X i (f, index) = (r, f', index') \<Longrightarrow>
     mdf_idx_entries_used f' = mdf_idx_entries_used f \<and> mdf_idx_len f' = mdf_idx_len f"
  by (auto simp: update_index_entry_def Let_def
      split: option.splits prod.splits if_splits dest!: do_call_eq)

lemma update_index_entries_keeps:
  "update_index_entries X is (f, index) = (r, f', index') \<Longrightarrow>
     mdf_idx_entries_used f' = mdf_idx_entries_used f \<and> mdf_idx_len f' = mdf_idx_len f"
proof (induction "is" arbitrary: f index)
  case Nil
  then show ?case by simp
next
  case (Cons i "is")
  then show ?case
    by (auto split: prod.splits option.splits dest!: update_index_entry_keeps)
qed

lemma release_delayed_keeps:
  "release_delayed X chain f = (r, f') \<Longrightarrow>
     mdf_idx_entries_used f' = mdf_idx_entries_used f \<and> mdf_idx_len f' = mdf_idx_len f"
proof (induction chain arbitrary: f)
  case Nil
  then show ?case by simp
next
  case (Cons d chain)
  then show ?case
    by (auto split: prod.splits option.splits if_splits dest!: do_call_eq)
qed

lemma hdr_keeps:
  "H5F__vfd_swmr_construct_write_md_hdr X f n = (r, f') \<Longrightarrow>
     mdf_idx_entries_used f' = mdf_idx_entries_used f \<and> mdf_idx_len f' = mdf_idx_len f"
  by (auto simp: H5F__vfd_swmr_construct_write_md_hdr_def Let_def
      split: prod.splits option.splits if_splits dest!: do_call_eq)

lemma idx_keeps:
  "H5F__vfd_swmr_construct_write_md_idx X f n index = (r, f') \<Longrightarrow>
     mdf_idx_entries_used f' = mdf_idx_entries_used f \<and> mdf_idx_len f' = mdf_idx_len f"
  by (auto simp: H5F__vfd_swmr_construct_write_md_idx_def Let_def
      split: prod.splits option.splits if_splits dest!: do_call_eq)

lemma update_md_file_keeps:
  assumes "H5F_update_vfd_swmr_metadata_file X f n index = (r, f', index')"
  shows "mdf_idx_entries_used f' = mdf_idx_entries_used f \<and> mdf_idx_len f' = mdf_idx_len f"
  using assms
  by (auto simp: H5F_update_vfd_swmr_metadata_file_def Let_def
      split: if_splits prod.splits option.splits
      dest!: update_index_entries_keeps idx_keeps hdr_keeps release_delayed_keeps)

lemma create_index_keeps:
  "H5F__vfd_swmr_writer__create_index X f = (Some e, f') \<Longrightarrow>
     mdf_idx_entries_used f' = mdf_idx_entries_used f \<and> mdf_idx_len f' = mdf_idx_len f"
  by (auto simp: H5F__vfd_swmr_writer__create_index_def Let_def
      split: if_splits prod.splits option.splits dest!: do_call_eq)

lemma create_index_bound:
  "H5F__vfd_swmr_writer__create_index X f = (None, f') \<Longrightarrow>
     mdf_idx_entries_used f' = 0 \<and> 0 < mdf_idx_len f' \<and> mdf_idx_len f' < 2147483648
     \<and> mdf_idx f' = Some (replicate (nat (mdf_idx_len f')) empty_idx_entry)"
  using sint_lt[where 'a=32]
  by (auto simp: H5F__vfd_swmr_writer__create_index_def Let_def
      split: if_splits prod.splits option.splits dest!: do_call_eq)

lemma create_index_capacity:
  assumes "H5F__vfd_swmr_writer__create_index X f = (None, f')"
    and "unat H5FD_MD_HEADER_SIZE \<le> unat (md_pages_reserved f) * unat (fs_page_size f)"
    and "unat (md_pages_reserved f) * unat (fs_page_size f) < 2 ^ 64"
    and "index_capacity f < 2 ^ 31"
  shows "mdf_idx_len f' = int (index_capacity f)"
proof -
  define a where "a = unat (md_pages_reserved f) * unat (fs_page_size f)"
  have p: "unat (fs_page_size f * ucast (md_pages_reserved f)) = a"
    using assms(3) unfolding a_def
    by (simp add: unat_word_ariths unat_ucast_lag mult.commute)
  have h: "unat (ucast H5FD_MD_HEADER_SIZE :: 64 word) = 36" "unat H5FD_MD_HEADER_SIZE = 36"
    "unat (ucast H5FD_MD_INDEX_ENTRY_SIZE :: 64 word) = 16" "unat H5FD_MD_INDEX_ENTRY_SIZE = 16"
    by (simp_all add: H5FD_MD_HEADER_SIZE_def H5FD_MD_INDEX_ENTRY_SIZE_def)
  have le: "(ucast H5FD_MD_HEADER_SIZE :: 64 word) \<le> fs_page_size f * ucast (md_pages_reserved f)"
    using assms(2) by (simp add: word_le_nat_alt p h a_def del: of_nat_unat)
  have b: "unat (fs_page_size f * ucast (md_pages_reserved f) - ucast H5FD_MD_HEADER_SIZE) = a - 36"
    by (simp add: unat_sub[OF le] p h del: of_nat_unat)
  have c: "unat ((fs_page_size f * ucast (md_pages_reserved f) - ucast H5FD_MD_HEADER_SIZE)
              div ucast H5FD_MD_INDEX_ENTRY_SIZE) = index_capacity f"
    by (simp add: unat_div b h index_capacity_def a_def del: of_nat_unat)
  define q where "q = (fs_page_size f * ucast (md_pages_reserved f) - ucast H5FD_MD_HEADER_SIZE)
              div ucast H5FD_MD_INDEX_ENTRY_SIZE"
  have q: "unat q = index_capacity f" using c by (simp add: q_def)
  have u: "unat (ucast q :: 32 word) = index_capacity f"
    using assms(4) by (simp add: unsigned_ucast_eq take_bit_nat_eq_self q)
  have "uint (ucast q :: 32 word) = int (unat (ucast q :: 32 word))" by simp
  then have b: "uint (ucast q :: 32 word) = int (index_capacity f)" unfolding u .
  have lt: "int (index_capacity f) < 2 ^ 31" using assms(4) by simp
  have ge: "- (2 ^ 31) \<le> int (index_capacity f)" by simp
  have "sint (ucast q :: 32 word) = signed_take_bit 31 (uint (ucast q :: 32 word))"
    by (simp add: sint_uint)
  also have "\<dots> = int (index_capacity f)"
    unfolding b using ge lt by (rule signed_take_bit_int_eq_self)
  finally have s: "sint (ucast q :: 32 word) = int (index_capacity f)" .
  from assms(1) show ?thesis
    by (auto simp: H5F__vfd_swmr_writer__create_index_def Let_def s[unfolded q_def]
      split: if_splits prod.splits option.splits dest!: do_call_eq)
qed


lemma update_index_fails:
  "H5PB_vfd_swmr__update_index ts f = (Some e, f2, a) \<Longrightarrow> f2 = f"
  by (auto simp: H5PB_vfd_swmr__update_index_def split: sum.splits prod.splits)

lemma update_index_added:
  assumes "H5PB_vfd_swmr__update_index ts f = (None, f2, a)"
    and "uint (mdf_idx_entries_used f) \<le> mdf_idx_len f" and "mdf_idx_len f < 2147483648"
  shows "mdf_idx_entries_used f2 = mdf_idx_entries_used f \<and> mdf_idx_len f2 = mdf_idx_len f
    \<and> uint (mdf_idx_entries_used f + a) \<le> mdf_idx_len f"
proof -
  define u where "u = unat (mdf_idx_entries_used f)"
  from assms(1) obtain idx1 added where
    m: "merge_tick_list ts (tick_num f) u (nat (mdf_idx_len f))
          (case mdf_idx f of None \<Rightarrow> [] | Some idx \<Rightarrow> idx) 0 = Inr (idx1, added)"
    and f2: "f2 = f\<lparr>mdf_idx := map_option (\<lambda>_. idx1) (mdf_idx f)\<rparr>" and a: "a = of_nat added"
    by (auto simp: H5PB_vfd_swmr__update_index_def u_def split: sum.splits prod.splits)
  have "int u \<le> mdf_idx_len f" using assms(2) by (simp add: u_def)
  then have "u + 0 \<le> nat (mdf_idx_len f)" by linarith
  from merge_added_bound[OF m this] have b: "u + added \<le> nat (mdf_idx_len f)" by simp
  with assms(3) have lt: "u + added < 4294967296" by linarith
  have "unat (mdf_idx_entries_used f + a) = (u + added) mod 4294967296"
    by (simp add: a unat_word_ariths u_def unat_of_nat mod_add_right_eq)
  with lt have "unat (mdf_idx_entries_used f + a) = u + added" by simp
  then have "uint (mdf_idx_entries_used f + a) = int (u + added)"
    by (metis uint_nat)
  moreover have "0 \<le> uint (mdf_idx_entries_used f)" by simp
  with assms(2) have "0 \<le> mdf_idx_len f" by linarith
  with b have "int (u + added) \<le> mdf_idx_len f" by arith
  ultimately have "uint (mdf_idx_entries_used f + a) \<le> mdf_idx_len f" by simp
  then show ?thesis by (simp add: f2)
qed

lemma end_of_tick_index_bound:
  assumes "writer_end_of_tick_index X (H5PB_vfd_swmr__update_index ts) g = (r, g')"
    and "uint (mdf_idx_entries_used g) \<le> mdf_idx_len g" and "mdf_idx_len g < 2147483648"
  shows "uint (mdf_idx_entries_used g') \<le> mdf_idx_len g'
    \<and> (tick_num g \<noteq> 1 \<longrightarrow> mdf_idx_len g' = mdf_idx_len g)"
proof -
  obtain r1 g1 where c: "(if tick_num g = 1 then H5F__vfd_swmr_writer__create_index X g else (None, g)) = (r1, g1)"
    by (metis prod.collapse)
  show ?thesis
  proof (cases r1)
    case (Some e)
    with c have "H5F__vfd_swmr_writer__create_index X g = (Some e, g1)"
      by (auto split: if_splits)
    from create_index_keeps[OF this] assms c Some show ?thesis
      by (auto simp: writer_end_of_tick_index_def)
  next
    case None
    have inv1: "uint (mdf_idx_entries_used g1) \<le> mdf_idx_len g1" "mdf_idx_len g1 < 2147483648"
      and same: "tick_num g \<noteq> 1 \<longrightarrow> mdf_idx_len g1 = mdf_idx_len g"
      using c None assms(2,3) by (auto split: if_splits dest!: create_index_bound)
    obtain r2 g2 a where u: "H5PB_vfd_swmr__update_index ts g1 = (r2, g2, a)"
      by (metis prod.collapse)
    show ?thesis
    proof (cases r2)
      case (Some e)
      with u have "g2 = g1" by (auto dest: update_index_fails)
      with assms(1) c None u Some inv1 same show ?thesis
        by (auto simp: writer_end_of_tick_index_def)
    next
      case None2: None
      from update_index_added[OF u[unfolded None2] inv1]
      have k: "mdf_idx_entries_used g2 = mdf_idx_entries_used g1" "mdf_idx_len g2 = mdf_idx_len g1"
        "uint (mdf_idx_entries_used g1 + a) \<le> mdf_idx_len g1"
        by auto
      obtain r3 g3 where e: "(if mdf_idx_entries_used g2 + a > 0
                      then (case H5F_update_vfd_swmr_metadata_file X g2
                                   (mdf_idx_entries_used g2 + a) (mdf_idx g2) of
                              (r, f3, index) \<Rightarrow> (r, f3\<lparr>mdf_idx := index\<rparr>))
                      else (case H5F_update_vfd_swmr_metadata_file X g2 0 None of
                              (r, f3, _) \<Rightarrow> (r, f3))) = (r3, g3)"
        by (metis prod.collapse)
      then have k3: "mdf_idx_entries_used g3 = mdf_idx_entries_used g2"
        "mdf_idx_len g3 = mdf_idx_len g2"
        by (auto split: if_splits prod.splits dest!: update_md_file_keeps)
      have w: "writer_end_of_tick_index X (H5PB_vfd_swmr__update_index ts) g =
          (case r3 of Some _ \<Rightarrow> (Some SYSTEM_update_md_file, g3)
           | None \<Rightarrow>
              let f4 = g3\<lparr>mdf_idx_entries_used := mdf_idx_entries_used g3 + a\<rparr>
              in if \<not> uint (mdf_idx_entries_used f4) \<le> mdf_idx_len f4
                 then (Some ASSERTION_failed, f4) else (None, f4))"
        using e c u by (simp add: writer_end_of_tick_index_def None None2)
      from assms(1)[unfolded w] k k3 inv1 same show ?thesis
        by (auto simp: Let_def split: option.splits if_splits)
    qed
  qed
qed

lemma update_index_shadow_full:
  assumes "new_pages ts h" and "mdf_idx h = Some idx" and "nat (mdf_idx_len h) \<le> length idx"
    and "uint (mdf_idx_entries_used h) \<le> mdf_idx_len h"
  shows "(fst (H5PB_vfd_swmr__update_index ts h) = Some ShadowFull)
           = (nat (mdf_idx_len h) < unat (mdf_idx_entries_used h) + length ts)"
proof -
  define u where "u = unat (mdf_idx_entries_used h)"
  have "int u \<le> mdf_idx_len h" using assms(4) by (simp add: u_def)
  then have b: "u + 0 \<le> nat (mdf_idx_len h)" by linarith
  have d: "distinct (map fst ts)"
    and fr: "\<forall>p\<in>set (map fst ts). p \<notin> set (map hdf5_page_offset (take (u + 0) idx))"
    using assms(1,2) by (auto simp: new_pages_def list_all_iff u_def)
  note m = merge_new_pages[OF d fr assms(3) b, of "tick_num h"]
  show ?thesis
    using m assms(2)
    by (auto simp: H5PB_vfd_swmr__update_index_def u_def split: if_splits)
qed

lemma end_of_tick_shadow_full:
  assumes "fst (H5PB_vfd_swmr__update_index ts h) = Some ShadowFull" and "tick_num h \<noteq> 1"
  shows "writer_end_of_tick_index X (H5PB_vfd_swmr__update_index ts) h = (Some SYSTEM_update_index, h)"
proof -
  obtain f2 a where u: "H5PB_vfd_swmr__update_index ts h = (Some ShadowFull, f2, a)"
    using assms(1) by (metis prod.collapse)
  then have "f2 = h" by (rule update_index_fails)
  with u assms(2) show ?thesis
    by (simp add: writer_end_of_tick_index_def)
qed

text \<open>
  C7. \<^verbatim>\<open>H5F__vfd_swmr_writer__create_index\<close> gives the file an index of
  \<open>(md_pages_reserved * page_size - header_size) / entry_size\<close> empty entries, none of them
  in use (when the product neither wraps nor is smaller than the header, and the quotient
  is an \<^verbatim>\<open>int32_t\<close>). The index steps of the writer's end of tick leave
  \<open>mdf_idx_entries_used \<le> mdf_idx_len\<close> however they end, and do not change the
  capacity after the first tick. A tick list of new pages fails with \<open>ShadowFull\<close>
  exactly when the index has fewer free entries than the list has pages, and the end of
  tick then fails with the file unchanged.
\<close>

theorem index_capacity_bound:
  assumes "uint (mdf_idx_entries_used g) \<le> mdf_idx_len g" and "mdf_idx_len g < 2 ^ 31"
  shows "(H5F__vfd_swmr_writer__create_index X f = (None, f') \<longrightarrow>
            unat H5FD_MD_HEADER_SIZE \<le> unat (md_pages_reserved f) * unat (fs_page_size f) \<longrightarrow>
            unat (md_pages_reserved f) * unat (fs_page_size f) < 2 ^ 64 \<longrightarrow>
            index_capacity f < 2 ^ 31 \<longrightarrow>
            mdf_idx f' = Some (replicate (index_capacity f) empty_idx_entry)
            \<and> mdf_idx_len f' = int (index_capacity f) \<and> mdf_idx_entries_used f' = 0)
       \<and> (writer_end_of_tick_index X (H5PB_vfd_swmr__update_index ts) g = (r, g') \<longrightarrow>
            uint (mdf_idx_entries_used g') \<le> mdf_idx_len g'
            \<and> (tick_num g \<noteq> 1 \<longrightarrow> mdf_idx_len g' = mdf_idx_len g))
       \<and> (new_pages ts g \<longrightarrow> mdf_idx g = Some idx \<longrightarrow> nat (mdf_idx_len g) \<le> length idx \<longrightarrow>
            (fst (H5PB_vfd_swmr__update_index ts g) = Some ShadowFull)
              = (nat (mdf_idx_len g) < unat (mdf_idx_entries_used g) + length ts)
            \<and> (nat (mdf_idx_len g) < unat (mdf_idx_entries_used g) + length ts \<longrightarrow>
                 tick_num g \<noteq> 1 \<longrightarrow>
                 writer_end_of_tick_index X (H5PB_vfd_swmr__update_index ts) g
                   = (Some SYSTEM_update_index, g)))"
proof (intro conjI impI)
  assume c: "H5F__vfd_swmr_writer__create_index X f = (None, f')"
    and h: "unat H5FD_MD_HEADER_SIZE \<le> unat (md_pages_reserved f) * unat (fs_page_size f)"
      "unat (md_pages_reserved f) * unat (fs_page_size f) < 2 ^ 64" "index_capacity f < 2 ^ 31"
  from create_index_capacity[OF c h] show l: "mdf_idx_len f' = int (index_capacity f)" .
  from create_index_bound[OF c] l
  show "mdf_idx f' = Some (replicate (index_capacity f) empty_idx_entry)"
    "mdf_idx_entries_used f' = 0"
    by simp_all
next
  assume w: "writer_end_of_tick_index X (H5PB_vfd_swmr__update_index ts) g = (r, g')"
  from assms(2) have "mdf_idx_len g < 2147483648" by simp
  from end_of_tick_index_bound[OF w assms(1) this]
  show "uint (mdf_idx_entries_used g') \<le> mdf_idx_len g'"
    "tick_num g \<noteq> 1 \<Longrightarrow> mdf_idx_len g' = mdf_idx_len g"
    by simp_all
next
  assume n: "new_pages ts g" "mdf_idx g = Some idx" "nat (mdf_idx_len g) \<le> length idx"
  from update_index_shadow_full[OF n assms(1)]
  show s: "(fst (H5PB_vfd_swmr__update_index ts g) = Some ShadowFull)
              = (nat (mdf_idx_len g) < unat (mdf_idx_entries_used g) + length ts)" .
  assume "nat (mdf_idx_len g) < unat (mdf_idx_entries_used g) + length ts" "tick_num g \<noteq> 1"
  with s show "writer_end_of_tick_index X (H5PB_vfd_swmr__update_index ts) g
                   = (Some SYSTEM_update_index, g)"
    by (simp add: end_of_tick_shadow_full)
qed

lemmas capacity_example_simps =
  H5F__vfd_swmr_writer__create_index_def example_capacity_file_def example_created_file_def
  example_file_def example_ext_def sys_ok_def do_call_def Let_def sizeof_idx_entry_t_def
  H5FD_MD_HEADER_SIZE_def H5FD_MD_INDEX_ENTRY_SIZE_def index_capacity_def example_tick_list_def
  new_pages_def empty_idx_entry_def

theorem index_capacity_bound_witness:
  "H5F__vfd_swmr_writer__create_index (example_ext sys_ok) example_capacity_file
     = (None, example_created_file\<lparr>tick_num := 1\<rparr>)
   \<and> index_capacity example_capacity_file = 2
   \<and> mdf_idx_len example_created_file = 2
   \<and> fst (H5PB_vfd_swmr__update_index (example_tick_list [5, 6]) example_created_file) \<noteq> Some ShadowFull
   \<and> fst (H5PB_vfd_swmr__update_index (example_tick_list [5, 6, 7]) example_created_file) = Some ShadowFull
   \<and> writer_end_of_tick_index (example_ext sys_ok)
         (H5PB_vfd_swmr__update_index (example_tick_list [5, 6, 7])) example_created_file
       = (Some SYSTEM_update_index, example_created_file)
   \<and> uint (mdf_idx_entries_used (snd (writer_end_of_tick_index (example_ext sys_ok)
         (H5PB_vfd_swmr__update_index (example_tick_list [5, 6])) example_created_file))) \<le> 2"
proof -
  let ?X = "example_ext sys_ok :: unit ext"
  let ?g = example_created_file
  have rep: "\<And>x :: idx_entry. replicate 2 x = [x, x]"
    by (simp add: numeral_2_eq_2)
  have c: "H5F__vfd_swmr_writer__create_index ?X example_capacity_file
     = (None, example_created_file\<lparr>tick_num := 1\<rparr>)"
    by (simp add: capacity_example_simps rep)
  have k: "index_capacity example_capacity_file = 2"
    by (simp add: capacity_example_simps)
  have h: "unat H5FD_MD_HEADER_SIZE
        \<le> unat (md_pages_reserved example_capacity_file) * unat (fs_page_size example_capacity_file)"
    "unat (md_pages_reserved example_capacity_file) * unat (fs_page_size example_capacity_file) < 2 ^ 64"
    "index_capacity example_capacity_file < 2 ^ 31"
    by (simp_all add: capacity_example_simps)
  have g: "uint (mdf_idx_entries_used ?g) \<le> mdf_idx_len ?g" "mdf_idx_len ?g < 2 ^ 31"
    "mdf_idx ?g = Some [empty_idx_entry, empty_idx_entry]"
    "nat (mdf_idx_len ?g) \<le> length [empty_idx_entry, empty_idx_entry]"
    "tick_num ?g \<noteq> 1" "mdf_idx_len ?g = 2" "unat (mdf_idx_entries_used ?g) = 0"
    by (simp_all add: example_created_file_def example_capacity_file_def example_file_def)
  have n: "new_pages (example_tick_list [5, 6]) ?g" "new_pages (example_tick_list [5, 6, 7]) ?g"
    by (simp_all add: capacity_example_simps)
  note t2 = index_capacity_bound[OF g(1,2), of ?X example_capacity_file
      "example_created_file\<lparr>tick_num := 1\<rparr>" "example_tick_list [5, 6]"
      "fst (writer_end_of_tick_index ?X (H5PB_vfd_swmr__update_index (example_tick_list [5, 6])) ?g)"
      "snd (writer_end_of_tick_index ?X (H5PB_vfd_swmr__update_index (example_tick_list [5, 6])) ?g)"
      "[empty_idx_entry, empty_idx_entry]"]
  note t3 = index_capacity_bound[OF g(1,2), of ?X example_capacity_file
      "example_created_file\<lparr>tick_num := 1\<rparr>" "example_tick_list [5, 6, 7]" None ?g
      "[empty_idx_entry, empty_idx_entry]"]
  from t2 c h k have l: "mdf_idx_len (example_created_file\<lparr>tick_num := 1\<rparr>) = 2"
    by simp
  from conjunct1[OF conjunct2[OF t2], rule_format, OF prod.collapse[symmetric]] g(5,6)
  have b: "uint (mdf_idx_entries_used (snd (writer_end_of_tick_index ?X
         (H5PB_vfd_swmr__update_index (example_tick_list [5, 6])) ?g))) \<le> 2"
    by simp
  from conjunct2[OF conjunct2[OF t2], rule_format, OF n(1) g(3,4)] g(6,7)
  have s2: "fst (H5PB_vfd_swmr__update_index (example_tick_list [5, 6]) ?g) \<noteq> Some ShadowFull"
    by (simp add: example_tick_list_def)
  note l b s2
  moreover from conjunct2[OF conjunct2[OF t3], rule_format, OF n(2) g(3,4)] g(5,6,7) have
    "fst (H5PB_vfd_swmr__update_index (example_tick_list [5, 6, 7]) ?g) = Some ShadowFull"
    "writer_end_of_tick_index ?X (H5PB_vfd_swmr__update_index (example_tick_list [5, 6, 7])) ?g
       = (Some SYSTEM_update_index, ?g)"
    by (simp_all add: example_tick_list_def)
  ultimately show ?thesis using c k g(6) by simp
qed

subsection \<open>Freed space\<close>

lemma flush_dependencies_append:
  "flush_dependencies (xs @ ys) = flush_dependencies xs @ flush_dependencies ys"
  by (induction xs) auto

lemma freedspace_new_ok:
  assumes "H5MF__freedspace_new E ctx = (Some (p, x), c')"
  shows "x = \<lparr>fs_alloc_type = ctx_alloc_type ctx, fs_addr = ctx_addr ctx,
              fs_size = ctx_size ctx, fs_timestamp = H5_now_usec E\<rparr>
    \<and> flush_dependencies (calls c') = flush_dependencies (calls ctx)
    \<and> ctx_ring c' = ctx_ring ctx \<and> ctx_alloc_type c' = ctx_alloc_type ctx
    \<and> ctx_addr c' = ctx_addr ctx \<and> ctx_size c' = ctx_size ctx \<and> ctx_fs c' = ctx_fs ctx"
  using assms
  by (auto simp: H5MF__freedspace_new_def Let_def flush_dependencies_append do_call_def
      split: prod.splits option.splits if_splits)

lemma create_cb_ok:
  assumes "H5MF__freedspace_create_cb E entry ctx = (None, ctx')"
  shows "ctx_ring ctx' = ctx_ring ctx \<and> ctx_alloc_type ctx' = ctx_alloc_type ctx
    \<and> ctx_addr ctx' = ctx_addr ctx \<and> ctx_size ctx' = ctx_size ctx
    \<and> (if fd_candidate (ctx_alloc_type ctx) (ctx_addr ctx) (ctx_ring ctx) entry
        then \<exists>p x. ctx_fs ctx' = Some (p, x)
              \<and> (ctx_fs ctx = None \<longrightarrow>
                    x = \<lparr>fs_alloc_type = ctx_alloc_type ctx, fs_addr = ctx_addr ctx,
                         fs_size = ctx_size ctx, fs_timestamp = H5_now_usec E\<rparr>)
              \<and> (ctx_fs ctx \<noteq> None \<longrightarrow> ctx_fs ctx' = ctx_fs ctx)
              \<and> flush_dependencies (calls ctx') = flush_dependencies (calls ctx) @ [(p, addr entry)]
        else ctx' = ctx)"
proof (cases "fd_candidate (ctx_alloc_type ctx) (ctx_addr ctx) (ctx_ring ctx) entry")
  case False
  with assms show ?thesis
    by (auto simp: H5MF__freedspace_create_cb_def fd_candidate_def split: option.splits if_splits)
next
  case True
  then obtain t where t: "type_id entry = Some t" "create_fd (ctx_alloc_type ctx) t"
    and c: "addr entry \<noteq> ctx_addr ctx" "is_dirty entry" "ring entry \<le> ctx_ring ctx"
    by (auto simp: fd_candidate_def split: option.splits)
  show ?thesis
  proof (cases "ctx_fs ctx")
    case None
    with assms t c obtain p x c1 where n: "H5MF__freedspace_new E ctx = (Some (p, x), c1)"
      by (auto simp: H5MF__freedspace_create_cb_def split: prod.splits option.splits)
    note k = freedspace_new_ok[OF n]
    from assms t c None n obtain y where
      "do_call (mf_sys E) (H5AC_create_flush_dependency p (addr entry)) (c1\<lparr>ctx_fs := Some (p, x)\<rparr>)
         = (Some y, ctx')"
      by (auto simp: H5MF__freedspace_create_cb_def split: prod.splits option.splits)
    from do_call_eq[OF this] k True None show ?thesis
      by (auto simp: flush_dependencies_append)
  next
    case (Some a)
    obtain p x where a: "a = (p, x)" by (cases a) auto
    from assms t c Some a obtain y where
      "do_call (mf_sys E) (H5AC_create_flush_dependency p (addr entry)) ctx = (Some y, ctx')"
      by (auto simp: H5MF__freedspace_create_cb_def split: prod.splits option.splits)
    from do_call_eq[OF this] True Some a show ?thesis
      by (auto simp: flush_dependencies_append)
  qed
qed


lemma iterate_ok:
  assumes "H5AC_iterate E cache ctx = (None, ctx')"
  shows "ctx_ring ctx' = ctx_ring ctx \<and> ctx_alloc_type ctx' = ctx_alloc_type ctx
    \<and> ctx_addr ctx' = ctx_addr ctx \<and> ctx_size ctx' = ctx_size ctx
    \<and> (ctx_fs ctx \<noteq> None \<longrightarrow> ctx_fs ctx' = ctx_fs ctx)
    \<and> (ctx_fs ctx = None \<longrightarrow>
          (ctx_fs ctx' \<noteq> None)
            = list_ex (fd_candidate (ctx_alloc_type ctx) (ctx_addr ctx) (ctx_ring ctx)) cache)
    \<and> (case ctx_fs ctx' of
          None \<Rightarrow> flush_dependencies (calls ctx') = flush_dependencies (calls ctx)
        | Some (p, x) \<Rightarrow>
            (ctx_fs ctx = None \<longrightarrow>
               x = \<lparr>fs_alloc_type = ctx_alloc_type ctx, fs_addr = ctx_addr ctx,
                    fs_size = ctx_size ctx, fs_timestamp = H5_now_usec E\<rparr>)
            \<and> flush_dependencies (calls ctx')
                = flush_dependencies (calls ctx)
                  @ map (\<lambda>e. (p, addr e))
                      (filter (fd_candidate (ctx_alloc_type ctx) (ctx_addr ctx) (ctx_ring ctx)) cache))"
  using assms
proof (induction cache arbitrary: ctx)
  case Nil
  then show ?case by (auto split: option.splits)
next
  case (Cons e cache)
  from Cons.prems obtain c1 where
    cb: "H5MF__freedspace_create_cb E e ctx = (None, c1)"
    and it: "H5AC_iterate E cache c1 = (None, ctx')"
    by (auto split: prod.splits option.splits)
  note k = create_cb_ok[OF cb]
  note ih = Cons.IH[OF it]
  show ?case
  proof (cases "fd_candidate (ctx_alloc_type ctx) (ctx_addr ctx) (ctx_ring ctx) e")
    case False
    with k have "c1 = ctx" by simp
    with ih False show ?thesis by (auto split: option.splits)
  next
    case True
    with k obtain p x where
      s: "ctx_fs c1 = Some (p, x)"
      and x: "ctx_fs ctx = None \<longrightarrow>
                    x = \<lparr>fs_alloc_type = ctx_alloc_type ctx, fs_addr = ctx_addr ctx,
                         fs_size = ctx_size ctx, fs_timestamp = H5_now_usec E\<rparr>"
      and o: "ctx_fs ctx \<noteq> None \<longrightarrow> ctx_fs c1 = ctx_fs ctx"
      and d: "flush_dependencies (calls c1) = flush_dependencies (calls ctx) @ [(p, addr e)]"
      by auto
    from k have f: "ctx_ring c1 = ctx_ring ctx" "ctx_alloc_type c1 = ctx_alloc_type ctx"
      "ctx_addr c1 = ctx_addr ctx" "ctx_size c1 = ctx_size ctx"
      by simp_all
    from ih s have s': "ctx_fs ctx' = Some (p, x)" by simp
    from ih s' f d True x o s show ?thesis
      by simp
  qed
qed

text \<open>
  C9. When \<^verbatim>\<open>H5MF__freedspace_create\<close> succeeds: if the cache is clean, no
  freedspace object is made and the only call is the question to the cache. If the cache
  is not clean, the entries linked as flush-dependency children are, in the order of the
  iteration, the entries that are not at the freed address, are dirty, are in a ring up to
  the ring of the freed space and have a type that may refer to it; the parent of each is
  the freedspace object, which holds the type, address and size of the freed space. The
  object is made when the first such entry is met, so that there is one exactly when there
  is such an entry.
\<close>

theorem freedspace_create_links:
  assumes "H5MF__freedspace_create E cache s alloc_type address size_freed = (None, fs, s')"
  shows "if cache_is_clean E s
         then fs = None \<and> calls s' = calls s @ [H5AC_cache_is_clean]
         else (fs \<noteq> None)
                = list_ex (fd_candidate alloc_type address (freed_ring E s alloc_type address)) cache
              \<and> (case fs of
                    None \<Rightarrow> flush_dependencies (calls s') = flush_dependencies (calls s)
                  | Some (p, x) \<Rightarrow>
                      x = \<lparr>fs_alloc_type = alloc_type, fs_addr = address, fs_size = size_freed,
                           fs_timestamp = H5_now_usec E\<rparr>
                      \<and> flush_dependencies (calls s')
                          = flush_dependencies (calls s)
                            @ map (\<lambda>e. (p, addr e))
                                (filter (fd_candidate alloc_type address
                                   (freed_ring E s alloc_type address)) cache))"
proof (cases "cache_is_clean E s")
  case True
  with assms show ?thesis
    by (auto simp: H5MF__freedspace_create_def cache_is_clean_def do_call_def
        split: if_splits prod.splits option.splits)
next
  case False
  define rg where "rg = freed_ring E s alloc_type address"
  from assms False obtain w3 cs3 c where
    it: "H5AC_iterate E cache \<lparr>world = w3, calls = cs3, ctx_ring = rg,
            ctx_alloc_type = alloc_type, ctx_addr = address, ctx_size = size_freed,
            ctx_fs = None\<rparr> = (None, c)"
    and fs: "fs = ctx_fs c" and s': "calls s' = calls c"
    and s3: "flush_dependencies cs3 = flush_dependencies (calls s)"
    unfolding rg_def
    by (auto simp: H5MF__freedspace_create_def cache_is_clean_def freed_ring_def do_call_def
        Let_def flush_dependencies_append
        split: if_splits prod.splits option.splits)
  from iterate_ok[OF it] fs s' s3 False show ?thesis
    unfolding rg_def[symmetric]
    by (auto split: option.splits)
qed

lemmas freedspace_example_simps =
  H5MF__freedspace_create_def example_mf_ext_def example_cache_def example_sys_state_def
  example_cache_entry_def sys_dirty_cache_def do_call_def HADDR_UNDEF_def Let_def
  H5MF__freedspace_create_cb_def H5MF__freedspace_new_def create_fd_def

theorem freedspace_create_links_witness:
  "fst (H5MF__freedspace_create example_mf_ext example_cache example_sys_state
          (H5FD_MEM_OTHER 0) 4096 512) = None
   \<and> \<not> cache_is_clean example_mf_ext example_sys_state
   \<and> freed_ring example_mf_ext example_sys_state (H5FD_MEM_OTHER 0) 4096 = 2
   \<and> fst (snd (H5MF__freedspace_create example_mf_ext example_cache example_sys_state
          (H5FD_MEM_OTHER 0) 4096 512))
       = Some (7, \<lparr>fs_alloc_type = H5FD_MEM_OTHER 0, fs_addr = 4096, fs_size = 512,
                    fs_timestamp = 1000\<rparr>)
   \<and> flush_dependencies (calls (snd (snd (H5MF__freedspace_create example_mf_ext example_cache
          example_sys_state (H5FD_MEM_OTHER 0) 4096 512))))
       = [(7, 8192), (7, 24576)]"
proof -
  let ?R = "H5MF__freedspace_create example_mf_ext example_cache example_sys_state
          (H5FD_MEM_OTHER 0) 4096 512"
  have r: "fst ?R = None"
    and f: "fst (snd ?R) = Some (7, \<lparr>fs_alloc_type = H5FD_MEM_OTHER 0, fs_addr = 4096,
                    fs_size = 512, fs_timestamp = 1000\<rparr>)"
    by (simp_all add: freedspace_example_simps)
  have ok: "?R = (None, Some (7, \<lparr>fs_alloc_type = H5FD_MEM_OTHER 0, fs_addr = 4096,
                    fs_size = 512, fs_timestamp = 1000\<rparr>), snd (snd ?R))"
    using r f by (metis prod.collapse)
  have n: "\<not> cache_is_clean example_mf_ext example_sys_state"
    by (simp add: cache_is_clean_def example_mf_ext_def example_sys_state_def sys_dirty_cache_def)
  have g: "freed_ring example_mf_ext example_sys_state (H5FD_MEM_OTHER 0) 4096 = 2"
    by (simp add: freed_ring_def example_mf_ext_def example_sys_state_def sys_dirty_cache_def)
  have e: "flush_dependencies (calls example_sys_state) = []"
    by (simp add: example_sys_state_def)
  have c: "filter (fd_candidate (H5FD_MEM_OTHER 0) 4096 2) example_cache
      = [example_cache_entry 8192 True 1 H5AC_BT2_HDR_ID,
         example_cache_entry 24576 True 2 H5AC_OHDR_CHK_ID]"
    by (simp add: fd_candidate_def example_cache_def example_cache_entry_def create_fd_def)
  from freedspace_create_links[OF ok] n
  have "flush_dependencies (calls (snd (snd ?R))) = [(7, 8192), (7, 24576)]"
    by (simp add: g e c example_cache_entry_def)
  with r n g f show ?thesis by simp
qed

text \<open>
  The claim C9 fails where the cache is not clean and has no entry to link: here the
  dirty entries are the freed entry itself and an entry of a later ring, and \<open>*fs\<close> stays
  \<^verbatim>\<open>NULL\<close>.
\<close>

theorem freedspace_not_created_without_candidates:
  "\<not> cache_is_clean example_mf_ext example_sys_state
   \<and> H5MF__freedspace_create example_mf_ext
        [example_cache_entry 4096 True 2 H5AC_OHDR_ID, example_cache_entry 12288 True 3 H5AC_OHDR_ID]
        example_sys_state (H5FD_MEM_OTHER 0) 4096 512
     = (None, None,
        \<lparr>world = (), calls = [H5AC_cache_is_clean, H5AC_get_entry_status 4096,
                               H5AC_get_entry_ring 4096]\<rparr>)"
  by (simp add: freedspace_example_simps cache_is_clean_def)

end
